theory Spec2Isabelle
  imports Main "HOL-Library.Multiset" "HOL-Library.AList"
begin

section \<open>Python values shared by the models\<close>

text \<open>
  An exception raised by the Python code: the class name and the message \<open>str(e)\<close>.
  Every class that occurs is a subclass of \<open>Exception\<close>, so \<open>except Exception\<close>
  catches every value of this type; signals that are not \<open>Exception\<close> instances (task
  cancellation, keyboard interrupt) are outside the models.
\<close>

datatype exn = Raised (cls: string) (msg: string)

abbreviation Exception :: "string \<Rightarrow> exn" where
  "Exception m \<equiv> Raised ''Exception'' m"

abbreviation ZeroDivisionError :: exn where
  "ZeroDivisionError \<equiv> Raised ''ZeroDivisionError'' ''integer modulo by zero''"

abbreviation IndexError :: exn where
  "IndexError \<equiv> Raised ''IndexError'' ''list index out of range''"

text \<open>
  Python list indexing \<open>xs[j]\<close> for a list of length \<open>n\<close>: a negative index counts
  from the end, an index out of range raises \<open>IndexError\<close> (\<open>None\<close> here).
\<close>

definition py_index :: "nat \<Rightarrow> int \<Rightarrow> nat option" where
  "py_index n j =
     (if 0 \<le> j \<and> j < int n then Some (nat j)
      else if j < 0 \<and> - j \<le> int n then Some (nat (int n + j))
      else None)"

text \<open>Python slicing \<open>xs[k:]\<close>: a negative start counts from the end and is clamped.\<close>

definition py_slice_from :: "int \<Rightarrow> 'a list \<Rightarrow> 'a list" where
  "py_slice_from k xs =
     (if k < 0 then drop (length xs - nat (- k)) xs else drop (nat k) xs)"

section \<open>Batch Orchestrator: \<open>get_batches\<close> (main.py)\<close>

text \<open>
  One account of the run: its 1-based position and the triple
  (wallet key, proxy, twitter token).
\<close>

type_synonym account_data = "nat \<times> (string \<times> string \<times> string)"

text \<open>
  \<open>zip(wallets, cycle(proxies), twitters)\<close>: \<open>cycle\<close> of an empty list yields nothing,
  so the zip is empty; otherwise the proxies repeat and the zip is as long as the shorter
  of wallets and twitters.
\<close>

definition zip_accounts :: "string list \<Rightarrow> string list \<Rightarrow> string list \<Rightarrow> (string \<times> string \<times> string) list" where
  "zip_accounts wallets proxies twitters =
     (if proxies = [] then []
      else map (\<lambda>i. (wallets ! i, proxies ! (i mod length proxies), twitters ! i))
             [0 ..< min (length wallets) (length twitters)])"

text \<open>\<open>list(enumerate(xs, start=1))\<close>.\<close>

definition enumerate1 :: "'a list \<Rightarrow> (nat \<times> 'a) list" where
  "enumerate1 xs = enumerate 1 xs"

text \<open>
  The list \<open>_data\<close> that \<open>get_batches(skip)\<close> distributes: all accounts, without the
  first \<open>skip\<close> ones when \<open>skip\<close> is given, or only the accounts named in \<open>want_only\<close>
  when \<open>skip\<close> is given and \<open>want_only\<close> is not empty.
\<close>

definition batch_data :: "int option \<Rightarrow> nat list \<Rightarrow> string list \<Rightarrow> string list \<Rightarrow> string list \<Rightarrow> account_data list" where
  "batch_data skip want_only wallets proxies twitters =
     (let all = enumerate1 (zip_accounts wallets proxies twitters);
          data = (case skip of None \<Rightarrow> all | Some k \<Rightarrow> py_slice_from k all)
      in if skip \<noteq> None \<and> length want_only > 0
         then filter (\<lambda>d. fst d \<in> set want_only) all
         else data)"

text \<open>
  The loop \<open>for _idx, d in enumerate(_data): _batches[_idx % THREADS_NUM].append(d)\<close>.
  \<open>idx\<close> is the position of the head of the remaining list. \<open>_idx % 0\<close> raises
  \<open>ZeroDivisionError\<close>; Python's \<open>%\<close> takes the sign of the divisor, as \<open>mod\<close> on
  \<open>int\<close> does.
\<close>

fun batches_loop :: "int \<Rightarrow> nat \<Rightarrow> 'a list \<Rightarrow> 'a list list \<Rightarrow> exn + 'a list list" where
  "batches_loop N idx [] bs = Inr bs"
| "batches_loop N idx (d # ds) bs =
     (if N = 0 then Inl ZeroDivisionError
      else (case py_index (length bs) (int idx mod N) of
              None \<Rightarrow> Inl IndexError
            | Some k \<Rightarrow> batches_loop N (Suc idx) ds (bs[k := bs ! k @ [d]])))"

text \<open>
  \<open>_batches = [[] for _ in range(THREADS_NUM)]\<close> followed by the loop: the round-robin
  assignment of a list to \<open>THREADS_NUM\<close> batches.
\<close>

definition round_robin :: "int \<Rightarrow> 'a list \<Rightarrow> exn + 'a list list" where
  "round_robin N data = batches_loop N 0 data (replicate (nat N) [])"

definition get_batches :: "int \<Rightarrow> int option \<Rightarrow> nat list \<Rightarrow> string list \<Rightarrow> string list \<Rightarrow> string list \<Rightarrow> exn + account_data list list" where
  "get_batches THREADS_NUM skip want_only wallets proxies twitters =
     round_robin THREADS_NUM (batch_data skip want_only wallets proxies twitters)"

text \<open>The positions of a list of length \<open>M\<close> that the assignment sends to batch \<open>k\<close>.\<close>

definition positions_of :: "nat \<Rightarrow> nat \<Rightarrow> nat \<Rightarrow> nat list" where
  "positions_of N M k = filter (\<lambda>i. i mod N = k) [0 ..< M]"

section \<open>Invite Pool: \<open>InvitesHandler\<close> (main.py)\<close>

text \<open>
  The settings of config.py that the pool and the sign-in read. config.py is not among
  the source files, so the settings are parameters. \<open>AUTO_UPDATE_INVITES_FROM_FIRST_COUNT\<close>
  is either a number or a tuple (the source tests \<open>type(...) is tuple\<close>).
\<close>

datatype first_count = Count int | Capped int int

record config =
  WAIT_BETWEEN_ACCOUNTS :: "int \<times> int"
  THREADS_NUM :: int
  AUTO_UPDATE_INVITES :: bool
  AUTO_UPDATE_INVITES_FROM_FIRST_COUNT :: first_count
  MOBILE_PROXY :: bool

text \<open>
  What the handler does that an observer sees: its pauses and its log lines. Durations are
  not modelled; a pause is recorded by the place that makes it.
\<close>

datatype event =
    Sleep_throttle
  | Sleep_between_accounts
  | Log_updating_invites
  | Log_added_new nat nat
  | Log_invites_updated nat
  | Log_entering_invite_code nat string
  | Log_code_already_used nat

text \<open>
  The handler's state: the queue \<open>self.invites\<close>, the outside world that the
  collaborators read and change (platform, network, random source), and the events so
  far. The lock is not modelled: each operation below is one critical section, run
  without interleaving.
\<close>

record 'w handler =
  invites :: "string list"
  world :: 'w
  events :: "event list"

text \<open>
  The collaborators, as functions of the world. \<open>refresh\<close> (main.py) is represented by
  its outcome for the pool: it raises, returns \<open>None\<close>, or returns an account whose
  unused invite codes are the list. \<open>use_invite_code\<close> and
  \<open>sign_in_or_start_register_if_needed\<close> belong to the platform client (well3.py, not among
  the source files); the two shuffles are \<open>random.shuffle\<close>.
\<close>

record 'w collaborators =
  refresh :: "nat \<Rightarrow> string \<Rightarrow> 'w \<Rightarrow> (exn + string list option) \<times> 'w"
  shuffle_addresses :: "(nat \<times> string) list \<Rightarrow> 'w \<Rightarrow> (nat \<times> string) list \<times> 'w"
  shuffle_invites :: "string list \<Rightarrow> 'w \<Rightarrow> string list \<times> 'w"
  use_invite_code :: "string \<Rightarrow> 'w \<Rightarrow> (exn + unit) \<times> 'w"
  sign_in_or_start_register_if_needed :: "'w \<Rightarrow> (exn + bool) \<times> 'w"

definition emit :: "event \<Rightarrow> 'w handler \<Rightarrow> 'w handler" where
  "emit e h = h\<lparr>events := events h @ [e]\<rparr>"

text \<open>\<open>add_invites\<close>: \<open>self.invites.extend(invites)\<close>.\<close>

definition add_invites :: "string list \<Rightarrow> 'w handler \<Rightarrow> 'w handler" where
  "add_invites new h = h\<lparr>invites := invites h @ new\<rparr>"

text \<open>
  \<open>get_invite\<close>: \<open>None\<close> when \<open>len(self.invites) == 0\<close>, else \<open>self.invites.pop(0)\<close>.
  The result is the returned value and the handler afterwards.
\<close>

definition get_invite :: "'w handler \<Rightarrow> string option \<times> 'w handler" where
  "get_invite h =
     (if length (invites h) = 0 then (None, h)
      else (Some (hd (invites h)), h\<lparr>invites := tl (invites h)\<rparr>))"

text \<open>Python slicing \<open>xs[:k]\<close>.\<close>

definition py_slice_to :: "int \<Rightarrow> 'a list \<Rightarrow> 'a list" where
  "py_slice_to k xs =
     (if k < 0 then take (length xs - nat (- k)) xs else take (nat k) xs)"

text \<open>
  The loop of \<open>update_invites\<close> over \<open>from_addresses\<close>. \<open>max_use\<close> is \<open>None\<close> or the
  number of accounts that may still contribute codes. An exception of \<open>refresh\<close> leaves
  the loop with the codes added so far still in the queue.
\<close>

fun refill_loop :: "'w collaborators \<Rightarrow> config \<Rightarrow> (nat \<times> string) list \<Rightarrow> int option \<Rightarrow> 'w handler \<Rightarrow> (exn + unit) \<times> 'w handler" where
  "refill_loop E C [] max_use h = (Inr (), h)"
| "refill_loop E C ((idx, address) # rest) max_use h =
     (if max_use \<noteq> None \<and> the max_use \<le> 0 then (Inr (), h)
      else
        let h1 = (if MOBILE_PROXY C \<and> idx \<noteq> 1 then emit Sleep_between_accounts h else h)
        in (case refresh E idx address (world h1) of
              (Inl e, w) \<Rightarrow> (Inl e, h1\<lparr>world := w\<rparr>)
            | (Inr None, w) \<Rightarrow> refill_loop E C rest max_use (h1\<lparr>world := w\<rparr>)
            | (Inr (Some codes), w) \<Rightarrow>
                let h2 = emit (Log_added_new idx (length codes)) (h1\<lparr>world := w\<rparr>);
                    h3 = h2\<lparr>invites := invites h2 @ codes\<rparr>;
                    max_use' = (if length codes > 0 \<and> max_use \<noteq> None
                                then Some (the max_use - 1) else max_use)
                in refill_loop E C rest max_use' h3))"

text \<open>
  The body of \<open>update_invites\<close> inside its \<open>try\<close>. With a non-empty queue it only
  pauses for \<open>WAIT_BETWEEN_ACCOUNTS[0] / THREADS_NUM\<close> seconds (a division that raises
  for \<open>THREADS_NUM = 0\<close>) and returns.
\<close>

definition update_invites_body :: "'w collaborators \<Rightarrow> config \<Rightarrow> string list \<Rightarrow> 'w handler \<Rightarrow> (exn + unit) \<times> 'w handler" where
  "update_invites_body E C addresses h =
     (if length (invites h) \<noteq> 0 then
        (if THREADS_NUM C = 0 then (Inl (Raised ''ZeroDivisionError'' ''division by zero''), h)
         else (Inr (), emit Sleep_throttle h))
      else
        let (from_addresses, max_use, w1) =
              (case AUTO_UPDATE_INVITES_FROM_FIRST_COUNT C of
                 Capped m n \<Rightarrow>
                   (let (shuffled, w) = shuffle_addresses E (enumerate1 (py_slice_to n addresses)) (world h)
                    in (shuffled, Some m, w))
               | Count n \<Rightarrow> (enumerate1 (py_slice_to n addresses), None, world h));
            h1 = emit Log_updating_invites (h\<lparr>world := w1\<rparr>)
        in (case refill_loop E C from_addresses max_use h1 of
              (Inl e, h2) \<Rightarrow> (Inl e, h2)
            | (Inr u, h2) \<Rightarrow>
                let h3 = (case AUTO_UPDATE_INVITES_FROM_FIRST_COUNT C of
                            Capped m n \<Rightarrow>
                              (let (shuffled, w) = shuffle_invites E (invites h2) (world h2)
                               in h2\<lparr>invites := shuffled, world := w\<rparr>)
                          | Count n \<Rightarrow> h2)
                in (Inr (), emit (Log_invites_updated (length (invites h3))) h3)))"

text \<open>
  \<open>update_invites\<close>: every exception of the body is replaced by
  \<open>Exception('Update invites failed: ' + str(e))\<close>.
\<close>

definition update_invites :: "'w collaborators \<Rightarrow> config \<Rightarrow> string list \<Rightarrow> 'w handler \<Rightarrow> (exn + unit) \<times> 'w handler" where
  "update_invites E C addresses h =
     (case update_invites_body E C addresses h of
        (Inl e, h') \<Rightarrow> (Inl (Exception (''Update invites failed: '' @ msg e)), h')
      | (Inr u, h') \<Rightarrow> (Inr (), h'))"

section \<open>Sign-in with an invite code: \<open>process_account\<close>, lines 152-171 (main.py)\<close>

text \<open>\<open>needle in hay\<close> for Python strings.\<close>

fun starts_with :: "string \<Rightarrow> string \<Rightarrow> bool" where
  "starts_with [] hay = True"
| "starts_with (p # ps) [] = False"
| "starts_with (p # ps) (c # cs) = (p = c \<and> starts_with ps cs)"

fun contains :: "string \<Rightarrow> string \<Rightarrow> bool" where
  "contains needle [] = (needle = [])"
| "contains needle (c # cs) = (starts_with needle (c # cs) \<or> contains needle cs)"

text \<open>
  The pool is shared. The batches run as concurrent tasks, and while this task is
  suspended at an \<open>await\<close> (waiting for the lock of the pool or for the platform) the
  other tasks run: they may take codes from the pool, refill it, and change the world.
  \<open>others k\<close> is what the other tasks do to the handler's state during the \<open>k\<close>-th
  suspension of this task; it is arbitrary. Inside one call of \<open>get_invite\<close> or
  \<open>update_invites\<close> the lock keeps the other tasks away from the queue.
\<close>

type_synonym 'w others = "nat \<Rightarrow> 'w handler \<Rightarrow> 'w handler"

text \<open>
  One draw of a code (lines 155-161), from the \<open>k\<close>-th suspension of the task on:
  \<open>await get_invite()\<close>; when it is empty, \<open>await update_invites()\<close> if
  \<open>AUTO_UPDATE_INVITES\<close> is set, then \<open>await get_invite()\<close> again, and
  \<open>Exception('No invite codes left')\<close> when that is empty too. Each of the three calls
  takes the lock on its own, so the other tasks run before each of them.
\<close>

definition draw_invite :: "'w collaborators \<Rightarrow> config \<Rightarrow> string list \<Rightarrow> 'w others \<Rightarrow> nat \<Rightarrow> 'w handler \<Rightarrow> (exn + string) \<times> 'w handler" where
  "draw_invite E C addresses others k h =
     (case get_invite (others k h) of
        (Some invite, h1) \<Rightarrow> (Inr invite, h1)
      | (None, h1) \<Rightarrow>
          (case (if AUTO_UPDATE_INVITES C then update_invites E C addresses (others (k + 1) h1)
                 else (Inr (), h1)) of
             (Inl e, h2) \<Rightarrow> (Inl e, h2)
           | (Inr u, h2) \<Rightarrow>
               (case get_invite (others (k + 2) h2) of
                  (None, h3) \<Rightarrow> (Inl (Exception ''No invite codes left''), h3)
                | (Some invite, h3) \<Rightarrow> (Inr invite, h3))))"

text \<open>
  The loop \<open>while True\<close> (lines 154-171). It ends when a code is accepted (\<open>Inr ()\<close>:
  \<open>result.invite_used = True\<close>) or an exception leaves it; a redemption that fails with
  a message containing \<open>Code not found or already used\<close> starts the next round. The
  other tasks run while \<open>use_invite_code\<close> is awaited. Nothing bounds the number of
  rounds, so the loop is a partial function: \<open>None\<close> is a run that never ends. One round
  has four suspensions.
\<close>

partial_function (option) invite_loop :: "'w collaborators \<Rightarrow> config \<Rightarrow> string list \<Rightarrow> 'w others \<Rightarrow> nat \<Rightarrow> nat \<Rightarrow> 'w handler \<Rightarrow> ((exn + unit) \<times> 'w handler) option" where
  "invite_loop E C addresses others idx k h =
     (case draw_invite E C addresses others k h of
        (Inl e, h1) \<Rightarrow> Some (Inl e, h1)
      | (Inr invite, h1) \<Rightarrow>
          (let h2 = others (k + 3) (emit (Log_entering_invite_code idx invite) h1)
           in (case use_invite_code E invite (world h2) of
                 (Inl e, w) \<Rightarrow>
                   if contains ''Code not found or already used'' (msg e)
                   then invite_loop E C addresses others idx (k + 4)
                          (emit (Log_code_already_used idx) (h2\<lparr>world := w\<rparr>))
                   else Some (Inl e, h2\<lparr>world := w\<rparr>)
               | (Inr u, w) \<Rightarrow> Some (Inr (), h2\<lparr>world := w\<rparr>))))"

text \<open>
  Lines 152-171: the sign-in, and the loop when the platform asks for an invite code. The
  value is \<open>result.invite_used\<close>.
\<close>

definition sign_in :: "'w collaborators \<Rightarrow> config \<Rightarrow> string list \<Rightarrow> 'w others \<Rightarrow> nat \<Rightarrow> 'w handler \<Rightarrow> ((exn + bool) \<times> 'w handler) option" where
  "sign_in E C addresses others idx h =
     (case sign_in_or_start_register_if_needed E (world h) of
        (Inl e, w) \<Rightarrow> Some (Inl e, h\<lparr>world := w\<rparr>)
      | (Inr need_invite, w) \<Rightarrow>
          if need_invite then
            (case invite_loop E C addresses others idx 0 (h\<lparr>world := w\<rparr>) of
               None \<Rightarrow> None
             | Some (Inl e, h') \<Rightarrow> Some (Inl e, h')
             | Some (Inr u, h') \<Rightarrow> Some (Inr True, h'))
          else Some (Inr False, h\<lparr>world := w\<rparr>))"

text \<open>No other task runs, and another task takes the code at the front of the queue.\<close>

definition nobody :: "'w others" where
  "nobody k h = h"

definition takes_code_at :: "nat \<Rightarrow> 'w others" where
  "takes_code_at j k h = (if k = j then snd (get_invite h) else h)"

section \<open>Batch Orchestrator: \<open>process_batch\<close> and \<open>process\<close> (main.py)\<close>

text \<open>
  \<open>ProcessResult\<close> (models.py, not among the source files): the per-account outcome
  record. The source reads and writes one attribute of it, \<open>invite_used\<close>.
\<close>

record process_result =
  invite_used :: bool

text \<open>
  What a batch does besides calling the per-account function: its pauses, its error log
  line (account index \<open>d[0]\<close> and first line of the message), and the entry appended to
  \<open>logs/errors.txt\<close> (account index and whole message; the time stamp is left out).
\<close>

datatype batch_event =
    Sleep_stagger nat
  | Sleep_pacing
  | Log_process_account_error nat string
  | Errors_file_append nat string

text \<open>
  The state that the concurrent batches share: the world that the per-account function
  reads and changes (store, invite pool, platform, chain) and the events so far.
\<close>

record 'w run =
  shared :: 'w
  trace :: "batch_event list"

definition observe :: "batch_event \<Rightarrow> 'w run \<Rightarrow> 'w run" where
  "observe e st = st\<lparr>trace := trace st @ [e]\<rparr>"

text \<open>
  \<open>str.splitlines()\<close>. A line ends at a line boundary: \<open>\n\<close>, \<open>\r\<close>, \<open>\r\n\<close> (one
  boundary), \<open>\v\<close>, \<open>\f\<close>, \<open>\x1c\<close>, \<open>\x1d\<close>, \<open>\x1e\<close>, \<open>\x85\<close>; text after the last
  boundary is a line when it is not empty. Characters are read as code points below 256,
  so the two boundaries beyond that range (U+2028, U+2029) do not occur.
\<close>

definition line_boundary :: "char \<Rightarrow> bool" where
  "line_boundary c \<longleftrightarrow>
     c \<in> {CHR 0x0A, CHR 0x0D, CHR 0x0B, CHR 0x0C, CHR 0x1C, CHR 0x1D, CHR 0x1E, CHR 0x85}"

fun splitlines_from :: "string \<Rightarrow> string \<Rightarrow> string list" where
  "splitlines_from cur [] = (if cur = [] then [] else [cur])"
| "splitlines_from cur (c # cs) =
     (if c = CHR 0x0D then
        (case cs of
           [] \<Rightarrow> [cur]
         | d # ds \<Rightarrow> if d = CHR 0x0A then cur # splitlines_from [] ds
                     else cur # splitlines_from [] cs)
      else if line_boundary c then cur # splitlines_from [] cs
      else splitlines_from (cur @ [c]) cs)"

definition splitlines :: "string \<Rightarrow> string list" where
  "splitlines s = splitlines_from [] s"

text \<open>
  One round of the loop of \<open>process_batch\<close> for the account \<open>d\<close> at position \<open>idx\<close> of
  the batch, with \<open>used\<close> the counter \<open>used_invites\<close>: the pacing pause, the call in its
  \<open>try\<close>, and the handler. \<open>e_msg_lines[0]\<close> raises \<open>IndexError\<close> on an empty list, and
  an exception raised inside the handler leaves \<open>process_batch\<close>. \<open>errors_file\<close> is
  the file system: the exception, if any, that opening \<open>logs/errors.txt\<close> for appending
  and writing to it raises in a state of the run.
\<close>

definition process_one :: "('w run \<Rightarrow> exn option) \<Rightarrow> (account_data \<Rightarrow> 'w \<Rightarrow> (exn + process_result) \<times> 'w) \<Rightarrow> bool \<Rightarrow> nat \<times> account_data \<Rightarrow> nat \<Rightarrow> 'w run \<Rightarrow> (exn + nat) \<times> 'w run" where
  "process_one errors_file async_func sleep p used st =
     (let idx = fst p; d = snd p;
          st1 = (if sleep \<and> idx \<noteq> 0 then observe Sleep_pacing st else st)
      in (case async_func d (shared st1) of
            (Inr result, w) \<Rightarrow>
              (Inr (if invite_used result then used + 1 else used), st1\<lparr>shared := w\<rparr>)
          | (Inl e, w) \<Rightarrow>
              (let e_msg = (if msg e = [] then '' '' else msg e);
                   e_msg_lines = splitlines e_msg
               in (case e_msg_lines of
                     [] \<Rightarrow> (Inl IndexError, st1\<lparr>shared := w\<rparr>)
                   | first_line # other_lines \<Rightarrow>
                       (let st2 = observe (Log_process_account_error (fst d) first_line) (st1\<lparr>shared := w\<rparr>)
                        in if length e_msg_lines > 1 then
                             (case errors_file st2 of
                                Some e' \<Rightarrow> (Inl e', st2)
                              | None \<Rightarrow> (Inr used, observe (Errors_file_append (fst d) e_msg) st2))
                           else (Inr used, st2))))))"

text \<open>The loop \<open>for idx, d in enumerate(batch)\<close>.\<close>

fun process_batch_loop :: "('w run \<Rightarrow> exn option) \<Rightarrow> (account_data \<Rightarrow> 'w \<Rightarrow> (exn + process_result) \<times> 'w) \<Rightarrow> bool \<Rightarrow> (nat \<times> account_data) list \<Rightarrow> nat \<Rightarrow> 'w run \<Rightarrow> (exn + nat) \<times> 'w run" where
  "process_batch_loop errors_file async_func sleep [] used st = (Inr used, st)"
| "process_batch_loop errors_file async_func sleep (p # ps) used st =
     (case process_one errors_file async_func sleep p used st of
        (Inl e, st') \<Rightarrow> (Inl e, st')
      | (Inr used', st') \<Rightarrow> process_batch_loop errors_file async_func sleep ps used' st')"

text \<open>
  \<open>process_batch\<close>, run on its own: the stagger pause of
  \<open>WAIT_BETWEEN_ACCOUNTS[0] / THREADS_NUM * bid\<close> seconds (the division raises for
  \<open>THREADS_NUM = 0\<close>), then the loop; the value is \<open>used_invites\<close>.
\<close>

definition process_batch :: "('w run \<Rightarrow> exn option) \<Rightarrow> config \<Rightarrow> nat \<Rightarrow> account_data list \<Rightarrow> (account_data \<Rightarrow> 'w \<Rightarrow> (exn + process_result) \<times> 'w) \<Rightarrow> bool \<Rightarrow> 'w run \<Rightarrow> (exn + nat) \<times> 'w run" where
  "process_batch errors_file C bid batch async_func sleep st =
     (if THREADS_NUM C = 0 then (Inl (Raised ''ZeroDivisionError'' ''division by zero''), st)
      else process_batch_loop errors_file async_func sleep (enumerate 0 batch) 0
             (observe (Sleep_stagger bid) st))"



text \<open>An outcome that counts: the call returned a result with \<open>invite_used\<close> set.\<close>

fun consumed_invite :: "exn + process_result \<Rightarrow> bool" where
  "consumed_invite (Inr result) = invite_used result"
| "consumed_invite (Inl e) = False"

text \<open>
  The events that one round of the loop leaves for the account \<open>d\<close> at position \<open>idx\<close>
  whose call had the outcome \<open>out\<close>, and the events of a whole batch from position
  \<open>idx\<close> on.
\<close>

definition round_events :: "bool \<Rightarrow> nat \<Rightarrow> account_data \<Rightarrow> exn + process_result \<Rightarrow> batch_event list" where
  "round_events sleep idx d out =
     (if sleep \<and> idx \<noteq> 0 then [Sleep_pacing] else []) @
     (case out of
        Inr result \<Rightarrow> []
      | Inl e \<Rightarrow>
          (let e_msg = (if msg e = [] then '' '' else msg e)
           in Log_process_account_error (fst d) (hd (splitlines e_msg)) #
              (if length (splitlines e_msg) > 1 then [Errors_file_append (fst d) e_msg] else [])))"


subsection \<open>\<open>process\<close>: the batches as concurrent tasks\<close>

text \<open>
  \<open>process\<close> starts one task per batch and awaits them together. A task is a run of
  \<open>process_batch\<close> that the event loop advances from one suspension point to the next;
  which task advances next is the event loop's choice, given here as a schedule (a list of
  task numbers). One step of a task is its stagger pause, one round of its loop (the call
  of the per-account function is taken as one step on the shared world), or its return.
\<close>

datatype task_status = Task_ready | Task_running | Task_done "exn + nat"

record task =
  task_bid :: nat
  pending :: "(nat \<times> account_data) list"
  used_invites :: nat
  status :: task_status

definition task_step :: "('w run \<Rightarrow> exn option) \<Rightarrow> config \<Rightarrow> (account_data \<Rightarrow> 'w \<Rightarrow> (exn + process_result) \<times> 'w) \<Rightarrow> bool \<Rightarrow> task \<Rightarrow> 'w run \<Rightarrow> task \<times> 'w run" where
  "task_step errors_file C async_func sleep t st =
     (case status t of
        Task_ready \<Rightarrow>
          if THREADS_NUM C = 0
          then (t\<lparr>status := Task_done (Inl (Raised ''ZeroDivisionError'' ''division by zero''))\<rparr>, st)
          else (t\<lparr>status := Task_running\<rparr>, observe (Sleep_stagger (task_bid t)) st)
      | Task_running \<Rightarrow>
          (case pending t of
             [] \<Rightarrow> (t\<lparr>status := Task_done (Inr (used_invites t))\<rparr>, st)
           | p # ps \<Rightarrow>
               (case process_one errors_file async_func sleep p (used_invites t) st of
                  (Inl e, st') \<Rightarrow> (t\<lparr>status := Task_done (Inl e)\<rparr>, st')
                | (Inr used', st') \<Rightarrow> (t\<lparr>pending := ps, used_invites := used'\<rparr>, st')))
      | Task_done r \<Rightarrow> (t, st))"

definition sched_step :: "('w run \<Rightarrow> exn option) \<Rightarrow> config \<Rightarrow> (account_data \<Rightarrow> 'w \<Rightarrow> (exn + process_result) \<times> 'w) \<Rightarrow> bool \<Rightarrow> nat \<Rightarrow> task list \<times> 'w run \<Rightarrow> task list \<times> 'w run" where
  "sched_step errors_file C async_func sleep k cfg =
     (if k < length (fst cfg)
      then (let (t', st') = task_step errors_file C async_func sleep (fst cfg ! k) (snd cfg)
            in ((fst cfg)[k := t'], st'))
      else cfg)"

text \<open>\<open>tasks.append(asyncio.create_task(process_batch(idx, b, ...)))\<close> for every batch.\<close>

definition create_tasks :: "account_data list list \<Rightarrow> task list" where
  "create_tasks batches =
     map (\<lambda>(idx, b). \<lparr>task_bid = idx, pending = enumerate 0 b, used_invites = 0, status = Task_ready\<rparr>)
       (enumerate 0 batches)"

text \<open>
  \<open>asyncio.gather(*tasks)\<close>: the exception of a task that raised (of several, the
  first in task order here, the first in time for \<open>asyncio\<close>), else the list of the
  values of the tasks in task order; \<open>None\<close> while a task has not finished.
\<close>

fun gather :: "task_status list \<Rightarrow> (exn + nat list) option" where
  "gather [] = Some (Inr [])"
| "gather (Task_done (Inl e) # rest) = Some (Inl e)"
| "gather (Task_done (Inr n) # rest) =
     (case gather rest of
        None \<Rightarrow> None
      | Some (Inl e) \<Rightarrow> Some (Inl e)
      | Some (Inr ns) \<Rightarrow> Some (Inr (n # ns)))"
| "gather (s # rest) =
     (case gather rest of
        Some (Inl e) \<Rightarrow> Some (Inl e)
      | other \<Rightarrow> None)"

definition process :: "('w run \<Rightarrow> exn option) \<Rightarrow> config \<Rightarrow> account_data list list \<Rightarrow> (account_data \<Rightarrow> 'w \<Rightarrow> (exn + process_result) \<times> 'w) \<Rightarrow> bool \<Rightarrow> nat list \<Rightarrow> 'w run \<Rightarrow> (exn + nat list) option \<times> 'w run" where
  "process errors_file C batches async_func sleep schedule st =
     (let (tasks, st') =
            fold (sched_step errors_file C async_func sleep) schedule (create_tasks batches, st)
      in (gather (map status tasks), st'))"





text \<open>A file system on which every append to \<open>logs/errors.txt\<close> succeeds.\<close>

definition appends_succeed :: "'w run \<Rightarrow> exn option" where
  "appends_succeed st = None"


section \<open>Transaction Lifecycle: \<open>Account\<close> (account.py)\<close>

definition GAS_PRICE :: int where
  "GAS_PRICE = 10024"

definition GAS_LIMIT :: int where
  "GAS_LIMIT = 300000"

text \<open>
  The transaction dictionary: the parameters that \<open>build_and_send_tx\<close> passes to
  \<open>build_transaction\<close> (\<open>from\<close>, \<open>nonce\<close>, \<open>gasPrice\<close>), the contract call it is built
  for, and the key \<open>gas\<close> that is set after the simulation.
\<close>

record tx =
  tx_call :: string
  tx_from :: string
  tx_nonce :: int
  tx_gas_price :: int
  tx_gas :: "int option"

text \<open>
  The server profile \<open>self.profile\<close>, a JSON value, as far as the lifecycle reads it:
  the value of \<open>profile['contractInfo'].get('linkedAddress')\<close>, or the exception that
  the expression raises (\<open>KeyError\<close> for a profile without \<open>contractInfo\<close>); and the
  exception, if any, that lines 56-67 of \<open>refresh_profile\<close> raise when they read
  \<open>referralInfo\<close> and \<open>ygpzQuesting\<close> from it.
\<close>

record profile =
  linkedAddress :: "exn + string option"
  account_fields :: "exn option"

text \<open>A receipt: \<open>tx_data.get('status')\<close>, and the logs of the transaction.\<close>

record receipt =
  receipt_status :: "int option"
  receipt_logs :: "string list"

text \<open>
  What the lifecycle does that an observer sees: its calls of the chain client and of the
  platform client, its log lines and its pauses.
\<close>

datatype action =
    Call_get_transaction_count
  | Call_build_transaction
  | Call_estimate_gas
  | Call_send_raw_transaction
  | Call_get_transaction_receipt
  | Call_generate_codes
  | Call_me
  | Log_simulation_failed_refreshing
  | Log_tx_sent
  | Log_successful_tx
  | Log_failed_tx
  | Log_received string
  | Log_pending_tx
  | Sleep_poll int
  | Log_retry_warning exn
  | Sleep_backoff

text \<open>
  The account context: \<open>self.account.address\<close>, \<open>self.profile\<close>, \<open>self.private_key\<close>
  (\<open>None\<close> until \<open>link_wallet_if_needed\<close> binds it), the world of the chain and the
  platform, and the actions so far. \<open>link_wallet_if_needed\<close>, the only place that binds
  the key, reads \<open>self.profile\<close> first, so a context with a key has a profile; the
  \<open>AccountInfo\<close> fields that \<open>refresh_profile\<close> recomputes from the profile are not read
  by the lifecycle and are left out.
\<close>

record 'w account =
  address :: string
  profile :: profile
  private_key :: "string option"
  chain :: 'w
  actions :: "action list"

text \<open>
  The chain client (web3) and the platform client (well3.py), neither among the source
  files, as functions of the world. \<open>received_lines\<close> stands for lines 235-259 of
  \<open>tx_verification\<close>: the \<open>Received\<close> lines that the decoding of the reward log writes;
  the decoding sits in a \<open>try\<close> that swallows every exception, so it has no other
  effect.
\<close>

record 'w services =
  get_transaction_count :: "string \<Rightarrow> 'w \<Rightarrow> (exn + int) \<times> 'w"
  build_transaction :: "string \<Rightarrow> string \<Rightarrow> int \<Rightarrow> int \<Rightarrow> 'w \<Rightarrow> (exn + tx) \<times> 'w"
  estimate_gas :: "tx \<Rightarrow> 'w \<Rightarrow> (exn + int) \<times> 'w"
  sign_transaction :: "tx \<Rightarrow> string \<Rightarrow> exn + string"
  send_raw_transaction :: "string \<Rightarrow> 'w \<Rightarrow> (exn + string) \<times> 'w"
  get_transaction_receipt :: "string \<Rightarrow> 'w \<Rightarrow> (exn + receipt option) \<times> 'w"
  generate_codes :: "'w \<Rightarrow> (exn + unit) \<times> 'w"
  me :: "'w \<Rightarrow> (exn + profile) \<times> 'w"
  received_lines :: "receipt \<Rightarrow> string list"

definition act :: "action \<Rightarrow> 'w account \<Rightarrow> 'w account" where
  "act x a = a\<lparr>actions := actions a @ [x]\<rparr>"

text \<open>An awaited call of a client: the action, and the reply with the world after it.\<close>

definition call :: "action \<Rightarrow> ('w \<Rightarrow> (exn + 'a) \<times> 'w) \<Rightarrow> 'w account \<Rightarrow> (exn + 'a) \<times> 'w account" where
  "call x f a = (case f (chain a) of (reply, w) \<Rightarrow> (reply, (act x a)\<lparr>chain := w\<rparr>))"

text \<open>
  \<open>refresh_profile\<close>: \<open>generate_codes()\<close>, then \<open>self.profile = me()\<close>, then the
  account fields are read from the new profile.
\<close>

definition refresh_profile :: "'w services \<Rightarrow> 'w account \<Rightarrow> (exn + unit) \<times> 'w account" where
  "refresh_profile S a =
     (case call Call_generate_codes (generate_codes S) a of
        (Inl e, a1) \<Rightarrow> (Inl e, a1)
      | (Inr u, a1) \<Rightarrow>
          (case call Call_me (me S) a1 of
             (Inl e, a2) \<Rightarrow> (Inl e, a2)
           | (Inr p, a2) \<Rightarrow>
               (case account_fields p of
                  Some e \<Rightarrow> (Inl e, a2\<lparr>profile := p\<rparr>)
                | None \<Rightarrow> (Inr (), a2\<lparr>profile := p\<rparr>))))"

text \<open>
  One attempt of \<open>build_and_send_tx\<close>: the function under its \<open>@async_retry\<close>. The value
  is the transaction hash.
\<close>

definition build_and_send_tx_attempt :: "'w services \<Rightarrow> string \<Rightarrow> 'w account \<Rightarrow> (exn + string) \<times> 'w account" where
  "build_and_send_tx_attempt S func a =
     (case private_key a of
        None \<Rightarrow> (Inl (Exception ''No private key specified''), a)
      | Some key \<Rightarrow>
          (case call Call_get_transaction_count (get_transaction_count S (address a)) a of
             (Inl e, a1) \<Rightarrow> (Inl e, a1)
           | (Inr nonce, a1) \<Rightarrow>
               (case call Call_build_transaction (build_transaction S func (address a1) nonce GAS_PRICE) a1 of
                  (Inl e, a2) \<Rightarrow> (Inl e, a2)
                | (Inr t, a2) \<Rightarrow>
                    (case call Call_estimate_gas (estimate_gas S t) a2 of
                       (Inl e, a3) \<Rightarrow>
                         (case linkedAddress (profile a3) of
                            Inl e' \<Rightarrow> (Inl e', a3)
                          | Inr linked \<Rightarrow>
                              if linked = Some (address a3) then
                                (case refresh_profile S (act Log_simulation_failed_refreshing a3) of
                                   (Inl e', a4) \<Rightarrow> (Inl e', a4)
                                 | (Inr u, a4) \<Rightarrow> (Inl (Exception (''Tx simulation failed: '' @ msg e)), a4))
                              else (Inl (Exception (''Tx simulation failed: '' @ msg e)), a3))
                     | (Inr estimate, a3) \<Rightarrow>
                         (case sign_transaction S (t\<lparr>tx_gas := Some GAS_LIMIT\<rparr>) key of
                            Inl e \<Rightarrow> (Inl e, a3)
                          | Inr raw \<Rightarrow>
                              call Call_send_raw_transaction (send_raw_transaction S raw) a3)))))"

text \<open>
  Modelled from the spec: the retry policy \<open>async_retry\<close> of utils.py, which is not among
  the source files. Section 4.1: execute the operation; on any raised failure other than
  one of a designated do-not-retry class, wait and retry, up to the maximum attempt count;
  on final failure, propagate the last error; every failed attempt emits a warning. The
  policy is the attempt count and the designated classes; every exception class is a
  subclass of \<open>Exception\<close>, so designating \<open>Exception\<close> designates every failure.
\<close>

record retry_policy =
  max_attempts :: nat
  do_not_retry_classes :: "string list"

definition do_not_retry :: "retry_policy \<Rightarrow> exn \<Rightarrow> bool" where
  "do_not_retry P e \<longleftrightarrow>
     cls e \<in> set (do_not_retry_classes P) \<or> ''Exception'' \<in> set (do_not_retry_classes P)"

fun retry_loop :: "retry_policy \<Rightarrow> nat \<Rightarrow> ('w account \<Rightarrow> (exn + 'a) \<times> 'w account) \<Rightarrow> 'w account \<Rightarrow> (exn + 'a) \<times> 'w account" where
  "retry_loop P left operation a =
     (case operation a of
        (Inr v, a') \<Rightarrow> (Inr v, a')
      | (Inl e, a') \<Rightarrow>
          (case left of
             0 \<Rightarrow> (Inl e, act (Log_retry_warning e) a')
           | Suc n \<Rightarrow>
               if do_not_retry P e then (Inl e, act (Log_retry_warning e) a')
               else retry_loop P n operation (act Sleep_backoff (act (Log_retry_warning e) a'))))"

definition async_retry :: "retry_policy \<Rightarrow> ('w account \<Rightarrow> (exn + 'a) \<times> 'w account) \<Rightarrow> 'w account \<Rightarrow> (exn + 'a) \<times> 'w account" where
  "async_retry P operation a = retry_loop P (max_attempts P - 1) operation a"

text \<open>\<open>build_and_send_tx\<close> as the callers see it: the attempt under \<open>@async_retry\<close>.\<close>

definition build_and_send_tx :: "retry_policy \<Rightarrow> 'w services \<Rightarrow> string \<Rightarrow> 'w account \<Rightarrow> (exn + string) \<times> 'w account" where
  "build_and_send_tx P S func a = async_retry P (build_and_send_tx_attempt S func) a"

text \<open>
  The loop of \<open>tx_verification\<close>, from the value \<open>time_passed\<close> on. A poll that has no
  receipt (\<open>None\<close>, or \<open>TransactionNotFound\<close> raised) is followed by
  \<open>time_passed += poll_latency\<close> and the pause; any other exception of the poll leaves
  the function. With \<open>poll_latency \<le> 0\<close> and no receipt the loop does not end: \<open>None\<close>.
\<close>

partial_function (option) poll_loop :: "'w services \<Rightarrow> string \<Rightarrow> int \<Rightarrow> int \<Rightarrow> 'w account \<Rightarrow> ((exn + unit) \<times> 'w account) option" where
  "poll_loop S tx_hash poll_latency time_passed a =
     (if time_passed < 150 then
        (case call Call_get_transaction_receipt (get_transaction_receipt S tx_hash) a of
           (Inr (Some tx_data), a1) \<Rightarrow>
             (let a2 = act (if receipt_status tx_data = Some 1 then Log_successful_tx else Log_failed_tx) a1
              in Some (Inr (), a2\<lparr>actions := actions a2 @ map Log_received (received_lines S tx_data)\<rparr>))
         | (Inr None, a1) \<Rightarrow>
             poll_loop S tx_hash poll_latency (time_passed + poll_latency) (act (Sleep_poll poll_latency) a1)
         | (Inl e, a1) \<Rightarrow>
             if cls e = ''TransactionNotFound''
             then poll_loop S tx_hash poll_latency (time_passed + poll_latency) (act (Sleep_poll poll_latency) a1)
             else Some (Inl e, a1))
      else Some (Inr (), act Log_pending_tx a))"

definition tx_verification :: "'w services \<Rightarrow> string \<Rightarrow> int \<Rightarrow> 'w account \<Rightarrow> ((exn + unit) \<times> 'w account) option" where
  "tx_verification S tx_hash poll_latency a = poll_loop S tx_hash poll_latency 0 (act Log_tx_sent a)"

text \<open>
  The world before the \<open>k\<close>-th poll of a run of polls without receipts, and the reply
  of that poll.
\<close>

fun poll_chain :: "'w services \<Rightarrow> string \<Rightarrow> 'w \<Rightarrow> nat \<Rightarrow> 'w" where
  "poll_chain S tx_hash w 0 = w"
| "poll_chain S tx_hash w (Suc k) = poll_chain S tx_hash (snd (get_transaction_receipt S tx_hash w)) k"

definition poll_reply :: "'w services \<Rightarrow> string \<Rightarrow> 'w \<Rightarrow> nat \<Rightarrow> exn + receipt option" where
  "poll_reply S tx_hash w k = fst (get_transaction_receipt S tx_hash (poll_chain S tx_hash w k))"

fun no_receipt :: "exn + receipt option \<Rightarrow> bool" where
  "no_receipt (Inr None) = True"
| "no_receipt (Inr (Some r)) = False"
| "no_receipt (Inl e) = (cls e = ''TransactionNotFound'')"

text \<open>The actions of \<open>k\<close> polls without a receipt, one second apart.\<close>

definition idle_polls :: "nat \<Rightarrow> int \<Rightarrow> action list" where
  "idle_polls k poll_latency = concat (replicate k [Call_get_transaction_receipt, Sleep_poll poll_latency])"

text \<open>The number of profile refreshes so far: every refresh starts with \<open>generate_codes\<close>.\<close>

definition refreshes :: "'w account \<Rightarrow> nat" where
  "refreshes a = length (filter (\<lambda>x. x = Call_generate_codes) (actions a))"

text \<open>
  The actions of the retry policy around an operation that fails with \<open>e\<close> at every
  attempt, with \<open>left\<close> retries left, and the number of attempts they stand for.
\<close>

fun failure_actions :: "retry_policy \<Rightarrow> nat \<Rightarrow> exn \<Rightarrow> action list" where
  "failure_actions P 0 e = [Log_retry_warning e]"
| "failure_actions P (Suc n) e =
     (if do_not_retry P e then [Log_retry_warning e]
      else [Log_retry_warning e, Sleep_backoff] @ failure_actions P n e)"

definition attempts_made :: "action list \<Rightarrow> nat" where
  "attempts_made xs = length (filter (\<lambda>x. \<exists>e. x = Log_retry_warning e) xs)"

section \<open>Persistent Store: \<open>Storage\<close> (storage.py)\<close>

text \<open>
  \<open>AccountInfo\<close> (models.py, not among the source files) is a mutable object. Its
  attributes hold immutable values (strings, numbers), taken together as one value of a
  type parameter, and two mutable containers that the source assigns: the list
  \<open>invite_codes\<close> (\<open>refresh_profile\<close>) and the dictionary \<open>insights\<close>
  (\<open>check_results\<close>). The value of an object is what \<open>to_dict\<close> and a comparison see.
\<close>

record 'v account_info =
  scalars :: 'v
  invite_codes :: "string list"
  insights :: "(string \<times> int) list"

text \<open>
  Objects live in a heap and are known by references, so that two names for one object,
  and a copy of it, differ. An \<open>AccountInfo\<close> object holds references to its two
  containers. A reference is the position of the object in its region of the heap; a new
  object is put at the end.
\<close>

type_synonym ref = nat

record 'v info_object =
  attributes :: 'v
  invite_codes_at :: ref
  insights_at :: ref

record 'v heap =
  info_objects :: "'v info_object list"
  list_objects :: "string list list"
  dict_objects :: "(string \<times> int) list list"

definition info_value :: "'v heap \<Rightarrow> ref \<Rightarrow> 'v account_info" where
  "info_value h r =
     \<lparr>scalars = attributes (info_objects h ! r),
      invite_codes = list_objects h ! invite_codes_at (info_objects h ! r),
      insights = dict_objects h ! insights_at (info_objects h ! r)\<rparr>"

text \<open>A new \<open>AccountInfo\<close> object with the given value, in new containers.\<close>

definition alloc_info :: "'v account_info \<Rightarrow> 'v heap \<Rightarrow> ref \<times> 'v heap" where
  "alloc_info v h =
     (length (info_objects h),
      \<lparr>info_objects = info_objects h @
         [\<lparr>attributes = scalars v,
           invite_codes_at = length (list_objects h),
           insights_at = length (dict_objects h)\<rparr>],
       list_objects = list_objects h @ [invite_codes v],
       dict_objects = dict_objects h @ [insights v]\<rparr>)"

text \<open>
  \<open>copy.deepcopy\<close> of an \<open>AccountInfo\<close> object: a new object and new containers with
  the same contents (immutable values are shared, which no one can observe).
\<close>

definition deepcopy :: "ref \<Rightarrow> 'v heap \<Rightarrow> ref \<times> 'v heap" where
  "deepcopy r h = alloc_info (info_value h r) h"

text \<open>
  \<open>Storage\<close>: the dictionary \<open>self.data\<close> from address to \<open>AccountInfo\<close> object, in
  insertion order as Python keeps it. \<open>self.data[address] = x\<close> is \<open>AList.update\<close>:
  the value of a present key is replaced in place, a new key goes to the end.
\<close>

record storage =
  data :: "(string \<times> ref) list"

definition new_storage :: storage where
  "new_storage = \<lparr>data = []\<rparr>"

definition get_final_account_info :: "storage \<Rightarrow> string \<Rightarrow> 'v heap \<Rightarrow> ref option \<times> 'v heap" where
  "get_final_account_info st addr h =
     (case map_of (data st) addr of
        None \<Rightarrow> (None, h)
      | Some info \<Rightarrow> (case deepcopy info h of (copy, h') \<Rightarrow> (Some copy, h')))"

definition set_final_account_info :: "storage \<Rightarrow> string \<Rightarrow> ref \<Rightarrow> 'v heap \<Rightarrow> storage \<times> 'v heap" where
  "set_final_account_info st addr info h =
     (case deepcopy info h of (copy, h') \<Rightarrow> (st\<lparr>data := AList.update addr copy (data st)\<rparr>, h'))"

definition remove :: "storage \<Rightarrow> string \<Rightarrow> storage" where
  "remove st addr =
     (if addr \<in> fst ` set (data st) then st\<lparr>data := AList.delete addr (data st)\<rparr> else st)"

text \<open>
  The asynchronous accessors take the lock and call the two functions above; the lock is
  not modelled (each call is one step).
\<close>

definition get_account_info :: "storage \<Rightarrow> string \<Rightarrow> 'v heap \<Rightarrow> ref option \<times> 'v heap" where
  "get_account_info st addr h = get_final_account_info st addr h"

definition set_account_info :: "storage \<Rightarrow> string \<Rightarrow> ref \<Rightarrow> 'v heap \<Rightarrow> storage \<times> 'v heap" where
  "set_account_info st addr info h = set_final_account_info st addr info h"

subsection \<open>The snapshot file\<close>

text \<open>
  A JSON value. An object is the list of its members in the order of the text. Numbers
  with a fraction or an exponent are left out: the records hold none.
\<close>

datatype json =
    JNull
  | JBool bool
  | JInt int
  | JString string
  | JArray "json list"
  | JObject "(string \<times> json) list"

text \<open>
  Modelled from the spec: \<open>AccountInfo\<close> (models.py, not among the source files), as
  far as it is not a container. Section 3 lists what an \<open>AccountState\<close> holds: the
  address that identifies it, the proxy string, the social-auth token, experience, level,
  pending-quest count, next-claim-eligibility timestamp and the daily/rank claim status;
  the names are the attributes that main.py and account.py assign. The timestamp is the
  value that the server sent, or a text (\<open>'Completed'\<close>, \<open>'Not started'\<close>).
\<close>

record account_scalars =
  info_address :: string
  info_proxy :: string
  info_twitter_auth_token :: string
  info_exp :: int
  info_lvl :: int
  info_pending_quests :: int
  info_next_breathe_time :: json
  info_daily_insight :: string
  info_insights_to_open :: int

text \<open>
  Modelled from the spec: \<open>AccountInfo.to_dict\<close> (models.py). Section 3: an
  \<open>AccountState\<close> is persisted as one record in the Store. The record is the JSON
  object with one member for each attribute, under the attribute's name: the owned invite
  codes as an array of strings, the per-rarity insight counts as an object of numbers.
\<close>

definition to_dict :: "account_scalars account_info \<Rightarrow> json" where
  "to_dict v =
     JObject
       [(''address'', JString (info_address (scalars v))),
        (''proxy'', JString (info_proxy (scalars v))),
        (''twitter_auth_token'', JString (info_twitter_auth_token (scalars v))),
        (''invite_codes'', JArray (map JString (invite_codes v))),
        (''exp'', JInt (info_exp (scalars v))),
        (''lvl'', JInt (info_lvl (scalars v))),
        (''pending_quests'', JInt (info_pending_quests (scalars v))),
        (''next_breathe_time'', info_next_breathe_time (scalars v)),
        (''insights'', JObject (map (\<lambda>(k, n). (k, JInt n)) (insights v))),
        (''daily_insight'', JString (info_daily_insight (scalars v))),
        (''insights_to_open'', JInt (info_insights_to_open (scalars v)))]"

text \<open>
  Reading a record back: the member of a dictionary under a key (\<open>KeyError\<close> when
  there is none), and a value of the type that the attribute holds (\<open>TypeError\<close> for
  another one).
\<close>

definition member :: "(string \<times> json) list \<Rightarrow> string \<Rightarrow> exn + json" where
  "member members k =
     (case map_of members k of
        None \<Rightarrow> Inl (Raised ''KeyError'' (CHR 0x27 # k @ [CHR 0x27]))
      | Some v \<Rightarrow> Inr v)"

fun as_str :: "json \<Rightarrow> exn + string" where
  "as_str (JString s) = Inr s"
| "as_str v = Inl (Raised ''TypeError'' ''str expected'')"

fun as_int :: "json \<Rightarrow> exn + int" where
  "as_int (JInt n) = Inr n"
| "as_int v = Inl (Raised ''TypeError'' ''int expected'')"

fun as_strs :: "json list \<Rightarrow> exn + string list" where
  "as_strs [] = Inr []"
| "as_strs (v # vs) =
     (case as_str v of
        Inl e \<Rightarrow> Inl e
      | Inr s \<Rightarrow> (case as_strs vs of Inl e \<Rightarrow> Inl e | Inr ss \<Rightarrow> Inr (s # ss)))"

fun as_counts :: "(string \<times> json) list \<Rightarrow> exn + (string \<times> int) list" where
  "as_counts [] = Inr []"
| "as_counts ((k, v) # ms) =
     (case as_int v of
        Inl e \<Rightarrow> Inl e
      | Inr n \<Rightarrow> (case as_counts ms of Inl e \<Rightarrow> Inl e | Inr kvs \<Rightarrow> Inr ((k, n) # kvs)))"

fun as_str_list :: "json \<Rightarrow> exn + string list" where
  "as_str_list (JArray vs) = as_strs vs"
| "as_str_list v = Inl (Raised ''TypeError'' ''list expected'')"

fun as_count_dict :: "json \<Rightarrow> exn + (string \<times> int) list" where
  "as_count_dict (JObject ms) = as_counts ms"
| "as_count_dict v = Inl (Raised ''TypeError'' ''dict expected'')"

definition and_then :: "exn + 'a \<Rightarrow> ('a \<Rightarrow> exn + 'b) \<Rightarrow> exn + 'b" where
  "and_then x f = (case x of Inl e \<Rightarrow> Inl e | Inr a \<Rightarrow> f a)"

text \<open>
  Modelled from the spec: \<open>AccountInfo.from_dict\<close> (models.py), the reader of the
  record that \<open>to_dict\<close> writes: every attribute from the member under its name.
\<close>

definition from_members :: "(string \<times> json) list \<Rightarrow> exn + account_scalars account_info" where
  "from_members ms =
     and_then (and_then (member ms ''address'') as_str) (\<lambda>address.
     and_then (and_then (member ms ''proxy'') as_str) (\<lambda>proxy.
     and_then (and_then (member ms ''twitter_auth_token'') as_str) (\<lambda>twitter_auth_token.
     and_then (and_then (member ms ''invite_codes'') as_str_list) (\<lambda>codes.
     and_then (and_then (member ms ''exp'') as_int) (\<lambda>exp.
     and_then (and_then (member ms ''lvl'') as_int) (\<lambda>lvl.
     and_then (and_then (member ms ''pending_quests'') as_int) (\<lambda>pending_quests.
     and_then (member ms ''next_breathe_time'') (\<lambda>next_breathe_time.
     and_then (and_then (member ms ''insights'') as_count_dict) (\<lambda>counts.
     and_then (and_then (member ms ''daily_insight'') as_str) (\<lambda>daily_insight.
     and_then (and_then (member ms ''insights_to_open'') as_int) (\<lambda>insights_to_open.
       Inr \<lparr>scalars =
              \<lparr>info_address = address, info_proxy = proxy,
                 info_twitter_auth_token = twitter_auth_token, info_exp = exp, info_lvl = lvl,
                 info_pending_quests = pending_quests,
                 info_next_breathe_time = next_breathe_time,
                 info_daily_insight = daily_insight,
                 info_insights_to_open = insights_to_open\<rparr>,
            invite_codes = codes, insights = counts\<rparr>)))))))))))"

fun from_dict :: "json \<Rightarrow> exn + account_scalars account_info" where
  "from_dict (JObject ms) = from_members ms"
| "from_dict v = Inl (Raised ''TypeError'' ''dict expected'')"

text \<open>
  The snapshot file. The text layer of \<open>json\<close> is not modelled: the file does not
  exist, or holds nothing but white space, or a JSON text with the given value, or a text
  that \<open>json.load\<close> rejects (with the given message). \<open>json.load\<close> builds a dictionary
  from the members of an object in order, so a repeated key keeps its first place and its
  last value; \<open>python_value\<close> is the value that it returns for a text.
\<close>

datatype file_content =
    Missing
  | Blank
  | Json_text json
  | Malformed string

definition json_load_object :: "(string \<times> 'j) list \<Rightarrow> (string \<times> 'j) list" where
  "json_load_object members = fold (\<lambda>(k, v). AList.update k v) members []"

fun python_value :: "json \<Rightarrow> json" where
  "python_value (JArray xs) = JArray (map python_value xs)"
| "python_value (JObject ms) =
     JObject (json_load_object (map (\<lambda>(k, v). (k, python_value v)) ms))"
| "python_value v = v"

text \<open>The name of the Python type of a loaded value that is not a dictionary.\<close>

fun type_name :: "json \<Rightarrow> string" where
  "type_name JNull = ''NoneType''"
| "type_name (JBool b) = ''bool''"
| "type_name (JInt n) = ''int''"
| "type_name (JString s) = ''str''"
| "type_name (JArray xs) = ''list''"
| "type_name (JObject ms) = ''dict''"

text \<open>
  \<open>save\<close>: \<open>{a: i.to_dict() for a, i in self.data.items()}\<close>, written to the file by
  \<open>json.dump\<close>.
\<close>

definition save :: "storage \<Rightarrow> account_scalars heap \<Rightarrow> file_content" where
  "save st h = Json_text (JObject (map (\<lambda>(a, i). (a, to_dict (info_value h i))) (data st)))"

text \<open>
  The dictionary comprehension of \<open>init\<close>: \<open>from_dict\<close> for each entry in order, every
  result a new object; the first exception ends it.
\<close>

fun load_entries :: "(string \<times> json) list \<Rightarrow> (string \<times> ref) list \<Rightarrow> account_scalars heap \<Rightarrow> exn + (string \<times> ref) list \<times> account_scalars heap" where
  "load_entries [] acc h = Inr (acc, h)"
| "load_entries ((a, i) # rest) acc h =
     (case from_dict i of
        Inl e \<Rightarrow> Inl e
      | Inr v \<Rightarrow>
          (case alloc_info v h of
             (r, h') \<Rightarrow> load_entries rest (AList.update a r acc) h'))"

text \<open>
  \<open>init\<close> of a store with the file name \<open>filename\<close> on a file: the store and the heap
  afterwards, or the exception. \<open>open\<close> raises for a file that does not exist,
  \<open>json.load\<close> for a text that is not JSON, and \<open>converted_data.items()\<close> for a JSON
  value that is not an object.
\<close>

definition init :: "string \<Rightarrow> file_content \<Rightarrow> storage \<Rightarrow> account_scalars heap \<Rightarrow> exn + storage \<times> account_scalars heap" where
  "init filename file st h =
     (case file of
        Missing \<Rightarrow>
          Inl (Raised ''FileNotFoundError''
                (''[Errno 2] No such file or directory: '' @ CHR 0x27 # filename @ [CHR 0x27]))
      | Blank \<Rightarrow> Inr (st\<lparr>data := []\<rparr>, h)
      | Malformed m \<Rightarrow> Inl (Raised ''JSONDecodeError'' m)
      | Json_text v \<Rightarrow>
          (case python_value v of
             JObject members \<Rightarrow>
               (case load_entries members [] h of
                  Inl e \<Rightarrow> Inl e
                | Inr (entries, h') \<Rightarrow> Inr (st\<lparr>data := entries\<rparr>, h'))
           | other \<Rightarrow>
               Inl (Raised ''AttributeError''
                     (CHR 0x27 # type_name other @ CHR 0x27 # '' object has no attribute '' @
                      CHR 0x27 # ''items'' @ [CHR 0x27]))))"

text \<open>
  A record whose dictionary of insight counts has one entry for a key, as a Python
  dictionary has, and whose timestamp is a value as \<open>json.load\<close> returns it.
\<close>

definition info_wf :: "account_scalars account_info \<Rightarrow> bool" where
  "info_wf v \<longleftrightarrow>
     distinct (map fst (insights v)) \<and>
     python_value (info_next_breathe_time (scalars v)) = info_next_breathe_time (scalars v)"

text \<open>
  What the store holds for an address, as a value: what a later
  \<open>get_final_account_info\<close> returns a copy of.
\<close>

definition store_view :: "storage \<Rightarrow> 'v heap \<Rightarrow> string \<Rightarrow> 'v account_info option" where
  "store_view st h addr = map_option (info_value h) (map_of (data st) addr)"

text \<open>
  The places of the heap that make up an \<open>AccountInfo\<close> object, and those that make up
  the objects of the store.
\<close>

datatype location = Info_at ref | List_at ref | Dict_at ref

definition locations :: "'v heap \<Rightarrow> ref \<Rightarrow> location set" where
  "locations h r =
     {Info_at r, List_at (invite_codes_at (info_objects h ! r)),
      Dict_at (insights_at (info_objects h ! r))}"

definition footprint :: "storage \<Rightarrow> 'v heap \<Rightarrow> location set" where
  "footprint st h = (\<Union>r \<in> snd ` set (data st). locations h r)"

text \<open>
  An object that exists: its reference and the references it holds are in the heap.
  In a well-formed store the keys are distinct and the objects exist.
\<close>

definition valid_info :: "'v heap \<Rightarrow> ref \<Rightarrow> bool" where
  "valid_info h r \<longleftrightarrow>
     r < length (info_objects h) \<and>
     invite_codes_at (info_objects h ! r) < length (list_objects h) \<and>
     insights_at (info_objects h ! r) < length (dict_objects h)"

definition store_wf :: "storage \<Rightarrow> 'v heap \<Rightarrow> bool" where
  "store_wf st h \<longleftrightarrow>
     distinct (map fst (data st)) \<and> (\<forall>r \<in> snd ` set (data st). valid_info h r)"

text \<open>
  A mutation by a holder of a reference: new attributes for an \<open>AccountInfo\<close> object
  (among them which containers it holds), new contents for a list, new contents for a
  dictionary.
\<close>

datatype 'v mutation =
    Set_attributes ref "'v info_object"
  | Set_list ref "string list"
  | Set_dict ref "(string \<times> int) list"

fun target :: "'v mutation \<Rightarrow> location" where
  "target (Set_attributes r obj) = Info_at r"
| "target (Set_list r xs) = List_at r"
| "target (Set_dict r kvs) = Dict_at r"

fun mutate :: "'v mutation \<Rightarrow> 'v heap \<Rightarrow> 'v heap" where
  "mutate (Set_attributes r obj) h = h\<lparr>info_objects := (info_objects h)[r := obj]\<rparr>"
| "mutate (Set_list r xs) h = h\<lparr>list_objects := (list_objects h)[r := xs]\<rparr>"
| "mutate (Set_dict r kvs) h = h\<lparr>dict_objects := (dict_objects h)[r := kvs]\<rparr>"

subsection \<open>Clients of the store\<close>

text \<open>
  A client of the store: the code that calls the accessors (\<open>refresh\<close>,
  \<open>process_account\<close> and \<open>main\<close> in main.py). It holds the \<open>AccountInfo\<close> objects that
  it built and the ones that \<open>get_final_account_info\<close> returned to it; nothing else leads
  it to an object, since only \<open>Storage\<close> reads \<open>self.data\<close>.
\<close>

record 'v client =
  client_store :: storage
  client_heap :: "'v heap"
  held :: "ref list"

text \<open>
  What a client does, in any order: it builds an object (\<open>AccountInfo(...)\<close>); it calls
  \<open>get_final_account_info(addr)\<close> and keeps the result; it calls
  \<open>set_final_account_info(addr, info)\<close> with an object it holds (the one at the given
  position of \<open>held\<close>); it mutates an object it reaches.
\<close>

datatype 'v client_op =
    Op_new "'v account_info"
  | Op_get string
  | Op_set string nat
  | Op_mutate "'v mutation"

text \<open>
  The places that a client reaches: the objects it holds and their containers. It can
  mutate those, and an assignment to the attributes of an object can make it hold only
  containers that the client reaches.
\<close>

definition client_locations :: "'v client \<Rightarrow> location set" where
  "client_locations c = (\<Union>r \<in> set (held c). locations (client_heap c) r)"

fun can_mutate :: "'v client \<Rightarrow> 'v mutation \<Rightarrow> bool" where
  "can_mutate c (Set_attributes r obj) \<longleftrightarrow>
     Info_at r \<in> client_locations c \<and>
     List_at (invite_codes_at obj) \<in> client_locations c \<and>
     Dict_at (insights_at obj) \<in> client_locations c"
| "can_mutate c (Set_list r xs) \<longleftrightarrow> List_at r \<in> client_locations c"
| "can_mutate c (Set_dict r kvs) \<longleftrightarrow> Dict_at r \<in> client_locations c"

text \<open>
  One operation of a client. An operation that the client cannot do (a position beyond
  the objects it holds, a mutation of a place it does not reach) does nothing.
\<close>

fun client_step :: "'v client_op \<Rightarrow> 'v client \<Rightarrow> 'v client" where
  "client_step (Op_new v) c =
     (case alloc_info v (client_heap c) of
        (r, h') \<Rightarrow> c\<lparr>client_heap := h', held := held c @ [r]\<rparr>)"
| "client_step (Op_get addr) c =
     (case get_final_account_info (client_store c) addr (client_heap c) of
        (None, h') \<Rightarrow> c\<lparr>client_heap := h'\<rparr>
      | (Some copy, h') \<Rightarrow> c\<lparr>client_heap := h', held := held c @ [copy]\<rparr>)"
| "client_step (Op_set addr i) c =
     (if i < length (held c) then
        (case set_final_account_info (client_store c) addr (held c ! i) (client_heap c) of
           (st', h') \<Rightarrow> c\<lparr>client_store := st', client_heap := h'\<rparr>)
      else c)"
| "client_step (Op_mutate m) c =
     (if can_mutate c m then c\<lparr>client_heap := mutate m (client_heap c)\<rparr> else c)"

definition client_run :: "'v client_op list \<Rightarrow> 'v client \<Rightarrow> 'v client" where
  "client_run ops c = fold client_step ops c"

fun is_set :: "'v client_op \<Rightarrow> bool" where
  "is_set (Op_set addr i) = True"
| "is_set op = False"

text \<open>What the store of a client holds for every address.\<close>

definition client_view :: "'v client \<Rightarrow> string \<Rightarrow> 'v account_info option" where
  "client_view c = store_view (client_store c) (client_heap c)"

text \<open>
  The store is well-formed and the client holds existing objects, none of them an object
  of the store.
\<close>

definition client_inv :: "'v client \<Rightarrow> bool" where
  "client_inv c \<longleftrightarrow>
     store_wf (client_store c) (client_heap c) \<and>
     (\<forall>r \<in> set (held c). valid_info (client_heap c) r \<and>
        locations (client_heap c) r \<inter> footprint (client_store c) (client_heap c) = {})"

section \<open>Properties: Batch Orchestrator: \<open>get_batches\<close> (main.py)\<close>

subsection \<open>The assignment is a partition\<close>

lemma py_index_mod:
  assumes "0 < n"
  shows "py_index n (int idx mod int n) = Some (idx mod n)"
proof -
  have "int idx mod int n = int (idx mod n)"
    by (simp add: zmod_int)
  moreover have "idx mod n < n"
    using assms by simp
  ultimately show ?thesis
    by (simp add: py_index_def)
qed

lemma batches_loop_positions:
  assumes "0 < n" and "length bs = n"
  shows "\<exists>bs'. batches_loop (int n) idx ds bs = Inr bs' \<and> length bs' = n \<and>
           (\<forall>k < n. bs' ! k = bs ! k @ map (\<lambda>i. ds ! i) (filter (\<lambda>i. (idx + i) mod n = k) [0 ..< length ds]))"
  using assms
proof (induction ds arbitrary: idx bs)
  case Nil
  then show ?case by simp
next
  case (Cons d ds)
  let ?j = "idx mod n"
  let ?bs = "bs[?j := bs ! ?j @ [d]]"
  have j: "?j < n" using Cons.prems by simp
  have len: "length ?bs = n" using Cons.prems by simp
  from Cons.IH [OF Cons.prems(1) len, of "Suc idx"]
  obtain bs' where run: "batches_loop (int n) (Suc idx) ds ?bs = Inr bs'"
    and len': "length bs' = n"
    and pos: "\<forall>k < n. bs' ! k = ?bs ! k @ map (\<lambda>i. ds ! i) (filter (\<lambda>i. (Suc idx + i) mod n = k) [0 ..< length ds])"
    by blast
  have step: "batches_loop (int n) idx (d # ds) bs = Inr bs'"
    using Cons.prems run by (simp add: py_index_mod)
  have shift: "filter (\<lambda>i. (idx + i) mod n = k) [0 ..< length (d # ds)] =
      (if idx mod n = k then [0] else []) @ map Suc (filter (\<lambda>i. (Suc idx + i) mod n = k) [0 ..< length ds])" for k
  proof -
    have "[0 ..< length (d # ds)] = 0 # map Suc [0 ..< length ds]"
      by (simp add: upt_conv_Cons map_Suc_upt del: upt_Suc)
    then show ?thesis
      by (simp add: filter_map comp_def)
  qed
  have "bs' ! k = bs ! k @ map (\<lambda>i. (d # ds) ! i) (filter (\<lambda>i. (idx + i) mod n = k) [0 ..< length (d # ds)])"
    if k: "k < n" for k
  proof (cases "idx mod n = k")
    case True
    then have "?bs ! k = bs ! k @ [d]"
      using Cons.prems k by simp
    with pos k True show ?thesis
      unfolding shift by (simp add: comp_def)
  next
    case False
    then have "?bs ! k = bs ! k"
      by simp
    with pos k False show ?thesis
      unfolding shift by (simp add: comp_def)
  qed
  with step len' show ?case by blast
qed

lemma round_robin_positions:
  assumes "1 \<le> N"
  shows "\<exists>bs. round_robin N accounts = Inr bs \<and> length bs = nat N \<and>
           (\<forall>k < nat N. bs ! k = map (\<lambda>i. accounts ! i) (positions_of (nat N) (length accounts) k))"
proof -
  have n: "0 < nat N" and N: "int (nat N) = N"
    using assms by simp_all
  from batches_loop_positions [OF n, of "replicate (nat N) []" 0 accounts]
  show ?thesis
    unfolding round_robin_def positions_of_def N by simp
qed

lemma sum_list_single_position:
  assumes "0 < (n::nat)"
  shows "(\<Sum>k \<leftarrow> [0 ..< n]. (if i mod n = k then {#f i#} else {#})) = {#f i#}"
proof -
  have "(\<Sum>k \<leftarrow> [0 ..< n]. (if i mod n = k then {#f i#} else {#})) =
      (\<Sum>k \<in> {0 ..< n}. (if i mod n = k then {#f i#} else {#}))"
    by (simp add: sum_list_distinct_conv_sum_set)
  also have "\<dots> = {#f i#}"
    using assms by simp
  finally show ?thesis .
qed

lemma mset_positions:
  assumes "0 < n"
  shows "(\<Sum>k \<leftarrow> [0 ..< n]. mset (map f (filter (\<lambda>i. i mod n = k) is))) = mset (map f is)"
proof (induction "is")
  case Nil
  then show ?case by simp
next
  case (Cons i "is")
  have "(\<Sum>k \<leftarrow> [0 ..< n]. mset (map f (filter (\<lambda>i. i mod n = k) (i # is)))) =
     (\<Sum>k \<leftarrow> [0 ..< n]. (if i mod n = k then {#f i#} else {#}) + mset (map f (filter (\<lambda>i. i mod n = k) is)))"
    by (rule arg_cong [where f = sum_list]) simp
  also have "\<dots> = {#f i#} + mset (map f is)"
    using Cons.IH sum_list_single_position [OF assms, of i f] by (simp add: sum_list_addf)
  finally show ?case by simp
qed

lemma mset_concat_batches:
  assumes "length bs = n"
    and "\<forall>k < n. bs ! k = map (\<lambda>i. accounts ! i) (positions_of n (length accounts) k)"
    and "0 < n"
  shows "mset (concat bs) = mset accounts"
proof -
  have "bs = map (\<lambda>k. map (\<lambda>i. accounts ! i) (positions_of n (length accounts) k)) [0 ..< n]"
    using assms(1,2) by (intro nth_equalityI) simp_all
  then have "mset (concat bs) =
      (\<Sum>k \<leftarrow> [0 ..< n]. mset (map (\<lambda>i. accounts ! i) (filter (\<lambda>i. i mod n = k) [0 ..< length accounts])))"
    by (simp add: mset_concat comp_def positions_of_def)
  also have "\<dots> = mset (map (\<lambda>i. accounts ! i) [0 ..< length accounts])"
    by (rule mset_positions [OF assms(3)])
  also have "\<dots> = mset accounts"
    by (simp add: map_nth)
  finally show ?thesis .
qed

lemma distinct_batch_data: "distinct (batch_data skip want_only wallets proxies twitters)"
proof -
  have all: "distinct (enumerate1 xs)" for xs :: "(string \<times> string \<times> string) list"
    by (simp add: enumerate1_def distinct_enumerate)
  show ?thesis
    by (auto simp: batch_data_def Let_def py_slice_from_def all split: option.splits)
qed

text \<open>
  Claim C1. For every parallelism factor \<open>N \<ge> 1\<close> and every account list,
  \<open>get_batches\<close> returns exactly \<open>N\<close> batches; batch \<open>k\<close> holds the accounts at the
  positions \<open>i\<close> with \<open>i mod N = k\<close>, in order (round robin, not contiguous slices);
  the batches together hold the accounts of the input with the same multiplicities,
  and no account twice: a partition of the list.
\<close>

theorem get_batches_partition:
  assumes "1 \<le> N"
  shows "\<exists>bs. get_batches N skip want_only wallets proxies twitters = Inr bs \<and>
           length bs = nat N \<and>
           (\<forall>k < nat N. bs ! k =
              map (\<lambda>i. batch_data skip want_only wallets proxies twitters ! i)
                (positions_of (nat N) (length (batch_data skip want_only wallets proxies twitters)) k)) \<and>
           mset (concat bs) = mset (batch_data skip want_only wallets proxies twitters) \<and>
           distinct (concat bs)"
proof -
  let ?data = "batch_data skip want_only wallets proxies twitters"
  from round_robin_positions [OF assms, of ?data]
  obtain bs where run: "round_robin N ?data = Inr bs" and len: "length bs = nat N"
    and pos: "\<forall>k < nat N. bs ! k = map (\<lambda>i. ?data ! i) (positions_of (nat N) (length ?data) k)"
    by blast
  have n: "0 < nat N" using assms by simp
  have m: "mset (concat bs) = mset ?data"
    by (rule mset_concat_batches [OF len pos n])
  have "distinct (concat bs)"
    using m distinct_batch_data [of skip want_only wallets proxies twitters]
    by (metis mset_eq_imp_distinct_iff)
  with run len pos m show ?thesis
    unfolding get_batches_def by blast
qed

theorem get_batches_partition_witness:
  "(1::int) \<le> 2 \<and>
   get_batches 2 None [] [''k1'', ''k2'', ''k3''] [''p''] [''t1'', ''t2'', ''t3''] =
     Inr [[(1, ''k1'', ''p'', ''t1''), (3, ''k3'', ''p'', ''t3'')], [(2, ''k2'', ''p'', ''t2'')]] \<and>
   (\<exists>bs. get_batches 2 None [] [''k1'', ''k2'', ''k3''] [''p''] [''t1'', ''t2'', ''t3''] = Inr bs \<and>
      length bs = 2 \<and>
      mset (concat bs) = mset (batch_data None [] [''k1'', ''k2'', ''k3''] [''p''] [''t1'', ''t2'', ''t3'']) \<and>
      distinct (concat bs))"
proof -
  have h: "(1::int) \<le> 2" by simp
  have ev: "get_batches 2 None [] [''k1'', ''k2'', ''k3''] [''p''] [''t1'', ''t2'', ''t3''] =
     Inr [[(1, ''k1'', ''p'', ''t1''), (3, ''k3'', ''p'', ''t3'')], [(2, ''k2'', ''p'', ''t2'')]]"
    by code_simp
  from get_batches_partition [OF h, of None "[]" "[''k1'', ''k2'', ''k3'']" "[''p'']" "[''t1'', ''t2'', ''t3'']"]
  have "\<exists>bs. get_batches 2 None [] [''k1'', ''k2'', ''k3''] [''p''] [''t1'', ''t2'', ''t3''] = Inr bs \<and>
      length bs = 2 \<and>
      mset (concat bs) = mset (batch_data None [] [''k1'', ''k2'', ''k3''] [''p''] [''t1'', ''t2'', ''t3'']) \<and>
      distinct (concat bs)"
    by auto
  with h ev show ?thesis by blast
qed

section \<open>Properties: Sign-in with an invite code: \<open>process_account\<close>, lines 152-171 (main.py)\<close>

subsection \<open>\<open>get_invite\<close>\<close>

text \<open>
  Claim C3, as stated, at the queue \<open>[A, A]\<close>: two consecutive calls both return \<open>A\<close>.
  Nothing in \<open>InvitesHandler\<close> keeps a code from standing in the queue twice.
\<close>

theorem get_invite_same_code_twice:
  "fst (get_invite \<lparr>invites = [''A'', ''A''], world = (), events = []\<rparr>) = Some ''A'' \<and>
   fst (get_invite (snd (get_invite \<lparr>invites = [''A'', ''A''], world = (), events = []\<rparr>))) = Some ''A''"
  by (simp add: get_invite_def)

text \<open>
  Claim C3, amended. On a non-empty queue \<open>get_invite\<close> returns the front code and
  removes that one entry, leaving the rest of the state as it was; a second call right
  after it returns the entry that stood second, so the two calls return the same code
  exactly when the queue held that code in its first two places (never for a queue
  without duplicates). On an empty queue \<open>get_invite\<close> returns \<open>None\<close> and changes
  nothing.
\<close>

theorem get_invite_pops_front:
  "(invites h = c # rest \<longrightarrow>
      get_invite h = (Some c, h\<lparr>invites := rest\<rparr>) \<and>
      mset (invites (snd (get_invite h))) = mset (invites h) - {#c#} \<and>
      (fst (get_invite (snd (get_invite h))) = fst (get_invite h) \<longleftrightarrow> rest \<noteq> [] \<and> hd rest = c) \<and>
      (distinct (invites h) \<longrightarrow> fst (get_invite (snd (get_invite h))) \<noteq> fst (get_invite h))) \<and>
   (invites h = [] \<longrightarrow> get_invite h = (None, h))"
proof -
  have "fst (get_invite (h\<lparr>invites := rest\<rparr>)) = Some c \<longleftrightarrow> rest \<noteq> [] \<and> hd rest = c"
    by (cases rest) (simp_all add: get_invite_def)
  moreover have "distinct (c # rest) \<Longrightarrow> \<not> (rest \<noteq> [] \<and> hd rest = c)"
    by (cases rest) auto
  ultimately show ?thesis
    by (auto simp: get_invite_def)
qed

theorem get_invite_pops_front_witness:
  "get_invite \<lparr>invites = [''A'', ''B''], world = (), events = []\<rparr> =
     (Some ''A'', \<lparr>invites = [''B''], world = (), events = []\<rparr>) \<and>
   fst (get_invite (snd (get_invite \<lparr>invites = [''A'', ''B''], world = (), events = []\<rparr>))) = Some ''B'' \<and>
   get_invite \<lparr>invites = [], world = (), events = []\<rparr> = (None, \<lparr>invites = [], world = (), events = []\<rparr>)"
  using get_invite_pops_front [of "\<lparr>invites = [''A'', ''B''], world = (), events = []\<rparr>" "''A''" "[''B'']"]
    get_invite_pops_front [of "\<lparr>invites = [], world = (), events = []\<rparr>" "''A''" "[]"]
  by (simp add: get_invite_def)

subsection \<open>\<open>update_invites\<close> on a non-empty queue\<close>

text \<open>
  Claim C8. When the queue is not empty (and \<open>THREADS_NUM\<close>, the divisor of the pause
  length, is not zero), \<open>update_invites\<close> returns normally after its one throttling pause: the queue
  holds the same codes in the same order, the world is untouched (no refresh, no
  shuffle: the collaborators are not consulted), and the pause is the only event.
\<close>

theorem update_invites_nonempty_noop:
  assumes "invites h \<noteq> []" and "THREADS_NUM C \<noteq> 0"
  shows "update_invites E C addresses h = (Inr (), h\<lparr>events := events h @ [Sleep_throttle]\<rparr>) \<and>
         invites (snd (update_invites E C addresses h)) = invites h \<and>
         world (snd (update_invites E C addresses h)) = world h \<and>
         update_invites E' C addresses h = update_invites E C addresses h"
  using assms by (simp add: update_invites_def update_invites_body_def emit_def)

theorem update_invites_nonempty_noop_witness:
  "invites \<lparr>invites = [''A'', ''B''], world = (), events = []\<rparr> \<noteq> [] \<and>
   THREADS_NUM \<lparr>WAIT_BETWEEN_ACCOUNTS = (5, 10), THREADS_NUM = 2, AUTO_UPDATE_INVITES = True,
        AUTO_UPDATE_INVITES_FROM_FIRST_COUNT = Count 3, MOBILE_PROXY = False\<rparr> \<noteq> 0 \<and>
   update_invites
     \<lparr>refresh = (\<lambda>i a w. (Inr (Some [''C'']), w)), shuffle_addresses = (\<lambda>xs w. (rev xs, w)),
      shuffle_invites = (\<lambda>xs w. (rev xs, w)), use_invite_code = (\<lambda>c w. (Inr (), w)),
      sign_in_or_start_register_if_needed = (\<lambda>w. (Inr True, w))\<rparr>
     \<lparr>WAIT_BETWEEN_ACCOUNTS = (5, 10), THREADS_NUM = 2, AUTO_UPDATE_INVITES = True,
      AUTO_UPDATE_INVITES_FROM_FIRST_COUNT = Count 3, MOBILE_PROXY = False\<rparr>
     [''0xa'', ''0xb'']
     \<lparr>invites = [''A'', ''B''], world = (), events = []\<rparr> =
   (Inr (), \<lparr>invites = [''A'', ''B''], world = (), events = [Sleep_throttle]\<rparr>)"
proof -
  let ?h = "\<lparr>invites = [''A'', ''B''], world = (), events = []\<rparr>"
  let ?C = "\<lparr>WAIT_BETWEEN_ACCOUNTS = (5, 10), THREADS_NUM = 2, AUTO_UPDATE_INVITES = True,
        AUTO_UPDATE_INVITES_FROM_FIRST_COUNT = Count 3, MOBILE_PROXY = False\<rparr>"
  have h: "invites ?h \<noteq> []" by simp
  have c: "THREADS_NUM ?C \<noteq> 0" by simp
  from update_invites_nonempty_noop [OF h c] h c show ?thesis by simp
qed

subsection \<open>The sign-in loop\<close>

lemma draw_invite_nonempty:
  "invites (others k h) = c # rest \<Longrightarrow>
   draw_invite E C addresses others k h = (Inr c, (others k h)\<lparr>invites := rest\<rparr>)"
  by (simp add: draw_invite_def get_invite_def)

lemma invite_loop_already_used:
  assumes "draw_invite E C addresses others k h = (Inr c, h1)"
    and "use_invite_code E c (world (others (k + 3) (emit (Log_entering_invite_code idx c) h1))) =
           (Inl e, w)"
    and "contains ''Code not found or already used'' (msg e)"
  shows "invite_loop E C addresses others idx k h =
         invite_loop E C addresses others idx (k + 4)
           (emit (Log_code_already_used idx)
              ((others (k + 3) (emit (Log_entering_invite_code idx c) h1))\<lparr>world := w\<rparr>))"
  using assms
  by (subst invite_loop.simps) (simp add: Let_def)

lemma invite_loop_accepted:
  assumes "draw_invite E C addresses others k h = (Inr c, h1)"
    and "use_invite_code E c (world (others (k + 3) (emit (Log_entering_invite_code idx c) h1))) =
           (Inr (), w)"
  shows "invite_loop E C addresses others idx k h =
         Some (Inr (), (others (k + 3) (emit (Log_entering_invite_code idx c) h1))\<lparr>world := w\<rparr>)"
  using assms
  by (subst invite_loop.simps) (simp add: Let_def)

lemma invite_loop_error_origin_aux:
  assumes "invite_loop E C addresses others idx k h = Some r"
  shows "\<forall>e h'. r = (Inl e, h') \<longrightarrow>
           (\<exists>k0 h0. draw_invite E C addresses others k0 h0 = (Inl e, h')) \<or>
           (\<not> contains ''Code not found or already used'' (msg e) \<and>
            (\<exists>c w0. fst (use_invite_code E c w0) = Inl e))"
  using assms
proof (induct rule: invite_loop.raw_induct [rotated 1, consumes 1, case_names step])
  case (step loop E C addresses others idx k h r)
  show ?case
  proof (cases "draw_invite E C addresses others k h")
    case (Pair d h1)
    show ?thesis
    proof (cases d)
      case (Inl e1)
      with Pair step.hyps(2) have "r = (Inl e1, h1)" by simp
      with Pair Inl show ?thesis by blast
    next
      case (Inr invite)
      let ?h2 = "others (k + 3) (emit (Log_entering_invite_code idx invite) h1)"
      show ?thesis
      proof (cases "use_invite_code E invite (world ?h2)")
        case use: (Pair u w)
        show ?thesis
        proof (cases u)
          case (Inl e2)
          show ?thesis
          proof (cases "contains ''Code not found or already used'' (msg e2)")
            case True
            with Pair Inr use Inl step.hyps(2)
            have "loop E C addresses others idx (k + 4)
                (emit (Log_code_already_used idx) (?h2\<lparr>world := w\<rparr>)) = Some r"
              by (simp add: Let_def)
            from step.hyps(1) [OF this] show ?thesis .
          next
            case False
            with Pair Inr use Inl step.hyps(2) have "r = (Inl e2, ?h2\<lparr>world := w\<rparr>)"
              by (simp add: Let_def)
            moreover have "fst (use_invite_code E invite (world ?h2)) = Inl e2"
              using use Inl by simp
            ultimately show ?thesis using False by blast
          qed
        next
          case (Inr x)
          with Pair \<open>d = Inr invite\<close> use step.hyps(2) have "r = (Inr (), ?h2\<lparr>world := w\<rparr>)"
            by (simp add: Let_def)
          then show ?thesis by simp
        qed
      qed
    qed
  qed
qed

lemma invite_loop_error_origin:
  assumes "invite_loop E C addresses others idx k h = Some (Inl e, h')"
  shows "(\<exists>k0 h0. draw_invite E C addresses others k0 h0 = (Inl e, h')) \<or>
         (\<not> contains ''Code not found or already used'' (msg e) \<and>
          (\<exists>c w0. fst (use_invite_code E c w0) = Inl e))"
  using invite_loop_error_origin_aux [OF assms] by blast

lemma update_invites_error:
  "fst (update_invites E C addresses h) = Inl e \<Longrightarrow>
   \<exists>m. e = Exception (''Update invites failed: '' @ m)"
  by (auto simp: update_invites_def split: prod.splits sum.splits)

lemma get_invite_empty: "invites h = [] \<Longrightarrow> get_invite h = (None, h)"
  by (simp add: get_invite_def)

lemma get_invite_nonempty: "invites h \<noteq> [] \<Longrightarrow> \<exists>c h'. get_invite h = (Some c, h')"
  by (simp add: get_invite_def)

lemma draw_invite_no_codes:
  "fst (draw_invite E C addresses others k h) = Inl (Exception ''No invite codes left'') \<longleftrightarrow>
     invites (others k h) = [] \<and>
     (if AUTO_UPDATE_INVITES C
      then fst (update_invites E C addresses (others (k + 1) (others k h))) = Inr () \<and>
           invites (others (k + 2)
             (snd (update_invites E C addresses (others (k + 1) (others k h))))) = []
      else invites (others (k + 2) (others k h)) = [])"
proof (cases "invites (others k h)")
  case (Cons c rest)
  then show ?thesis
    by (simp add: draw_invite_nonempty)
next
  case Nil
  note first = get_invite_empty [OF Nil]
  show ?thesis
  proof (cases "AUTO_UPDATE_INVITES C")
    case False
    show ?thesis
    proof (cases "invites (others (k + 2) (others k h))")
      case Nil': Nil
      with Nil False first show ?thesis
        by (simp add: draw_invite_def get_invite_empty)
    next
      case (Cons c rest)
      then have "invites (others (k + 2) (others k h)) \<noteq> []" by simp
      from get_invite_nonempty [OF this] Nil False first Cons show ?thesis
        by (auto simp: draw_invite_def)
    qed
  next
    case True
    let ?u = "update_invites E C addresses (others (k + 1) (others k h))"
    obtain r h2 where u: "?u = (r, h2)"
      by (cases ?u)
    show ?thesis
    proof (cases r)
      case (Inl e)
      with u have "fst ?u = Inl e" by simp
      from update_invites_error [OF this] obtain m where "e = Exception (''Update invites failed: '' @ m)" ..
      with Nil True u Inl first show ?thesis
        by (simp add: draw_invite_def)
    next
      case (Inr x)
      show ?thesis
      proof (cases "invites (others (k + 2) h2)")
        case Nil': Nil
        with Nil True u Inr first show ?thesis
          by (simp add: draw_invite_def get_invite_empty)
      next
        case (Cons c rest)
        then have "invites (others (k + 2) h2) \<noteq> []" by simp
        from get_invite_nonempty [OF this] Nil True u Inr first Cons show ?thesis
          by (auto simp: draw_invite_def)
      qed
    qed
  qed
qed

lemma draw_invite_errors:
  assumes "fst (draw_invite E C addresses others k h) = Inl e"
  shows "e = Exception ''No invite codes left'' \<or>
         (AUTO_UPDATE_INVITES C \<and> invites (others k h) = [] \<and>
          fst (update_invites E C addresses (others (k + 1) (others k h))) = Inl e)"
proof (cases "invites (others k h)")
  case Nil
  note first = get_invite_empty [OF Nil]
  from assms show ?thesis
    by (auto simp: draw_invite_def first Nil split: if_splits prod.splits sum.splits option.splits)
next
  case (Cons c rest)
  with assms show ?thesis
    by (simp add: draw_invite_nonempty)
qed

text \<open>
  Claim C7, as stated, fails in three ways. With \<open>AUTO_UPDATE_INVITES\<close> off, the sign-in
  on an empty pool raises \<open>No invite codes left\<close> without any refill attempt (the state
  is untouched), although a refill would have supplied the code \<open>C\<close>. With the setting on
  and a refill that fails, the pool is still empty after the one refill attempt, and what
  is raised is the refill's error, not \<open>No invite codes left\<close>. With the setting on and
  a refill that returns normally and leaves the code \<open>C\<close> in the pool, another task
  takes \<open>C\<close> before this task's second \<open>get_invite\<close>, and \<open>No invite codes left\<close> is
  raised although the pool was not empty after the refill.
\<close>

theorem sign_in_no_codes_counterexample:
  "sign_in
     \<lparr>refresh = (\<lambda>i a w. (Inr (Some [''C'']), w)), shuffle_addresses = (\<lambda>xs w. (xs, w)),
        shuffle_invites = (\<lambda>xs w. (xs, w)),
        use_invite_code = (\<lambda>c w. if c = ''A'' then (Inl (Exception ''Code not found or already used''), w) else (Inr (), w)),
        sign_in_or_start_register_if_needed = (\<lambda>w. (Inr True, w))\<rparr>
     \<lparr>WAIT_BETWEEN_ACCOUNTS = (5, 10), THREADS_NUM = 2, AUTO_UPDATE_INVITES = False,
        AUTO_UPDATE_INVITES_FROM_FIRST_COUNT = Count 3, MOBILE_PROXY = False\<rparr>
     [''0xa''] nobody 1 \<lparr>invites = [], world = (), events = []\<rparr> =
     Some (Inl (Exception ''No invite codes left''), \<lparr>invites = [], world = (), events = []\<rparr>) \<and>
   update_invites
     \<lparr>refresh = (\<lambda>i a w. (Inr (Some [''C'']), w)), shuffle_addresses = (\<lambda>xs w. (xs, w)),
        shuffle_invites = (\<lambda>xs w. (xs, w)),
        use_invite_code = (\<lambda>c w. if c = ''A'' then (Inl (Exception ''Code not found or already used''), w) else (Inr (), w)),
        sign_in_or_start_register_if_needed = (\<lambda>w. (Inr True, w))\<rparr>
     \<lparr>WAIT_BETWEEN_ACCOUNTS = (5, 10), THREADS_NUM = 2, AUTO_UPDATE_INVITES = False,
        AUTO_UPDATE_INVITES_FROM_FIRST_COUNT = Count 3, MOBILE_PROXY = False\<rparr>
     [''0xa''] \<lparr>invites = [], world = (), events = []\<rparr> =
     (Inr (), \<lparr>invites = [''C''], world = (), events = [Log_updating_invites, Log_added_new 1 1, Log_invites_updated 1]\<rparr>) \<and>
   sign_in
     \<lparr>refresh = (\<lambda>i a w. (Inl (Exception ''boom''), w)), shuffle_addresses = (\<lambda>xs w. (xs, w)),
        shuffle_invites = (\<lambda>xs w. (xs, w)),
        use_invite_code = (\<lambda>c w. if c = ''A'' then (Inl (Exception ''Code not found or already used''), w) else (Inr (), w)),
        sign_in_or_start_register_if_needed = (\<lambda>w. (Inr True, w))\<rparr>
     \<lparr>WAIT_BETWEEN_ACCOUNTS = (5, 10), THREADS_NUM = 2, AUTO_UPDATE_INVITES = True,
        AUTO_UPDATE_INVITES_FROM_FIRST_COUNT = Count 3, MOBILE_PROXY = False\<rparr>
     [''0xa''] nobody 1 \<lparr>invites = [], world = (), events = []\<rparr> =
     Some (Inl (Exception ''Update invites failed: boom''), \<lparr>invites = [], world = (), events = [Log_updating_invites]\<rparr>) \<and>
   update_invites
     \<lparr>refresh = (\<lambda>i a w. (Inr (Some [''C'']), w)), shuffle_addresses = (\<lambda>xs w. (xs, w)),
        shuffle_invites = (\<lambda>xs w. (xs, w)),
        use_invite_code = (\<lambda>c w. if c = ''A'' then (Inl (Exception ''Code not found or already used''), w) else (Inr (), w)),
        sign_in_or_start_register_if_needed = (\<lambda>w. (Inr True, w))\<rparr>
     \<lparr>WAIT_BETWEEN_ACCOUNTS = (5, 10), THREADS_NUM = 2, AUTO_UPDATE_INVITES = True,
        AUTO_UPDATE_INVITES_FROM_FIRST_COUNT = Count 3, MOBILE_PROXY = False\<rparr>
     [''0xa''] \<lparr>invites = [], world = (), events = []\<rparr> =
     (Inr (), \<lparr>invites = [''C''], world = (), events = [Log_updating_invites, Log_added_new 1 1, Log_invites_updated 1]\<rparr>) \<and>
   sign_in
     \<lparr>refresh = (\<lambda>i a w. (Inr (Some [''C'']), w)), shuffle_addresses = (\<lambda>xs w. (xs, w)),
        shuffle_invites = (\<lambda>xs w. (xs, w)),
        use_invite_code = (\<lambda>c w. if c = ''A'' then (Inl (Exception ''Code not found or already used''), w) else (Inr (), w)),
        sign_in_or_start_register_if_needed = (\<lambda>w. (Inr True, w))\<rparr>
     \<lparr>WAIT_BETWEEN_ACCOUNTS = (5, 10), THREADS_NUM = 2, AUTO_UPDATE_INVITES = True,
        AUTO_UPDATE_INVITES_FROM_FIRST_COUNT = Count 3, MOBILE_PROXY = False\<rparr>
     [''0xa''] (takes_code_at 2) 1 \<lparr>invites = [], world = (), events = []\<rparr> =
     Some (Inl (Exception ''No invite codes left''),
       \<lparr>invites = [], world = (), events = [Log_updating_invites, Log_added_new 1 1, Log_invites_updated 1]\<rparr>)"
  by (simp add: sign_in_def invite_loop.simps draw_invite_def get_invite_def update_invites_def
      update_invites_body_def enumerate1_def py_slice_to_def enumerate_eq_zip emit_def
      nobody_def takes_code_at_def)

text \<open>
  Claim C7, amended. In the sign-in loop of \<open>process_account\<close>, whatever the other tasks
  do to the shared pool while this task is suspended: a draw on a pool that is not empty
  takes the code at its front out of the pool; when the redemption of a drawn code fails
  with a message containing \<open>Code not found or already used\<close>, the loop goes on with the
  next draw (the code is gone); an error that leaves the loop is the error of a draw or a
  redemption error whose message does not contain that text, so an already-used code is
  never what the loop raises. A draw raises \<open>No invite codes left\<close> exactly when its
  first \<open>get_invite\<close> finds the pool empty and its second \<open>get_invite\<close> finds the pool
  empty again, as the other tasks have left it by then, after the one refill that is
  attempted in between if \<open>AUTO_UPDATE_INVITES\<close> is set and that must have returned
  normally (without the setting no refill is attempted); the only other error of a draw is
  the error of a failed refill, \<open>Update invites failed: ...\<close>.
\<close>

theorem sign_in_invite_codes:
  "(invites (others k h) = c' # rest \<longrightarrow>
      draw_invite E C addresses others k h = (Inr c', (others k h)\<lparr>invites := rest\<rparr>)) \<and>
   (draw_invite E C addresses others k h = (Inr c, g) \<and>
    use_invite_code E c (world (others (k + 3) (emit (Log_entering_invite_code idx c) g))) =
      (Inl e, w) \<and>
    contains ''Code not found or already used'' (msg e) \<longrightarrow>
      invite_loop E C addresses others idx k h =
      invite_loop E C addresses others idx (k + 4)
        (emit (Log_code_already_used idx)
           ((others (k + 3) (emit (Log_entering_invite_code idx c) g))\<lparr>world := w\<rparr>))) \<and>
   (invite_loop E C addresses others idx k h = Some (Inl e', h') \<longrightarrow>
      (\<exists>k0 h0. draw_invite E C addresses others k0 h0 = (Inl e', h')) \<or>
      (\<not> contains ''Code not found or already used'' (msg e') \<and>
       (\<exists>c0 w0. fst (use_invite_code E c0 w0) = Inl e'))) \<and>
   (fst (draw_invite E C addresses others k h) = Inl (Exception ''No invite codes left'') \<longleftrightarrow>
      invites (others k h) = [] \<and>
      (if AUTO_UPDATE_INVITES C
       then fst (update_invites E C addresses (others (k + 1) (others k h))) = Inr () \<and>
            invites (others (k + 2)
              (snd (update_invites E C addresses (others (k + 1) (others k h))))) = []
       else invites (others (k + 2) (others k h)) = [])) \<and>
   (fst (draw_invite E C addresses others k h) = Inl e'' \<longrightarrow>
      e'' = Exception ''No invite codes left'' \<or>
      (AUTO_UPDATE_INVITES C \<and> invites (others k h) = [] \<and>
       (\<exists>m. e'' = Exception (''Update invites failed: '' @ m)) \<and>
       fst (update_invites E C addresses (others (k + 1) (others k h))) = Inl e''))"
proof (intro conjI impI)
  assume "invites (others k h) = c' # rest"
  then show "draw_invite E C addresses others k h = (Inr c', (others k h)\<lparr>invites := rest\<rparr>)"
    by (rule draw_invite_nonempty)
next
  assume "draw_invite E C addresses others k h = (Inr c, g) \<and>
    use_invite_code E c (world (others (k + 3) (emit (Log_entering_invite_code idx c) g))) =
      (Inl e, w) \<and>
    contains ''Code not found or already used'' (msg e)"
  then show "invite_loop E C addresses others idx k h =
      invite_loop E C addresses others idx (k + 4)
        (emit (Log_code_already_used idx)
           ((others (k + 3) (emit (Log_entering_invite_code idx c) g))\<lparr>world := w\<rparr>))"
    by (intro invite_loop_already_used [where e = e]) simp_all
next
  assume "invite_loop E C addresses others idx k h = Some (Inl e', h')"
  then show "(\<exists>k0 h0. draw_invite E C addresses others k0 h0 = (Inl e', h')) \<or>
      (\<not> contains ''Code not found or already used'' (msg e') \<and>
       (\<exists>c0 w0. fst (use_invite_code E c0 w0) = Inl e'))"
    by (rule invite_loop_error_origin)
next
  show "fst (draw_invite E C addresses others k h) = Inl (Exception ''No invite codes left'') \<longleftrightarrow>
      invites (others k h) = [] \<and>
      (if AUTO_UPDATE_INVITES C
       then fst (update_invites E C addresses (others (k + 1) (others k h))) = Inr () \<and>
            invites (others (k + 2)
              (snd (update_invites E C addresses (others (k + 1) (others k h))))) = []
       else invites (others (k + 2) (others k h)) = [])"
    by (rule draw_invite_no_codes)
next
  assume "fst (draw_invite E C addresses others k h) = Inl e''"
  from draw_invite_errors [OF this]
    update_invites_error [of E C addresses "others (k + 1) (others k h)" e'']
  show "e'' = Exception ''No invite codes left'' \<or>
      (AUTO_UPDATE_INVITES C \<and> invites (others k h) = [] \<and>
       (\<exists>m. e'' = Exception (''Update invites failed: '' @ m)) \<and>
       fst (update_invites E C addresses (others (k + 1) (others k h))) = Inl e'')"
    by blast
qed

theorem sign_in_invite_codes_witness:
  "invite_loop
     \<lparr>refresh = (\<lambda>i a w. (Inr (Some [''D'']), w)), shuffle_addresses = (\<lambda>xs w. (xs, w)),
        shuffle_invites = (\<lambda>xs w. (xs, w)),
        use_invite_code = (\<lambda>c w. if c = ''A'' then (Inl (Exception ''Code not found or already used''), w) else (Inr (), w)),
        sign_in_or_start_register_if_needed = (\<lambda>w. (Inr True, w))\<rparr>
     \<lparr>WAIT_BETWEEN_ACCOUNTS = (5, 10), THREADS_NUM = 2, AUTO_UPDATE_INVITES = True,
        AUTO_UPDATE_INVITES_FROM_FIRST_COUNT = Count 3, MOBILE_PROXY = False\<rparr>
     [''0xa''] (takes_code_at 4) 1 0 \<lparr>invites = [''A'', ''B'', ''C''], world = (), events = []\<rparr> =
     Some (Inr (), \<lparr>invites = [], world = (), events = [Log_entering_invite_code 1 ''A'', Log_code_already_used 1, Log_entering_invite_code 1 ''C'']\<rparr>) \<and>
   fst (draw_invite
     \<lparr>refresh = (\<lambda>i a w. (Inr (Some [''D'']), w)), shuffle_addresses = (\<lambda>xs w. (xs, w)),
        shuffle_invites = (\<lambda>xs w. (xs, w)),
        use_invite_code = (\<lambda>c w. if c = ''A'' then (Inl (Exception ''Code not found or already used''), w) else (Inr (), w)),
        sign_in_or_start_register_if_needed = (\<lambda>w. (Inr True, w))\<rparr>
     \<lparr>WAIT_BETWEEN_ACCOUNTS = (5, 10), THREADS_NUM = 2, AUTO_UPDATE_INVITES = True,
        AUTO_UPDATE_INVITES_FROM_FIRST_COUNT = Count 3, MOBILE_PROXY = False\<rparr>
     [''0xa''] (takes_code_at 2) 0 \<lparr>invites = [], world = (), events = []\<rparr>) =
     Inl (Exception ''No invite codes left'') \<and>
   draw_invite
     \<lparr>refresh = (\<lambda>i a w. (Inr (Some [''D'']), w)), shuffle_addresses = (\<lambda>xs w. (xs, w)),
        shuffle_invites = (\<lambda>xs w. (xs, w)),
        use_invite_code = (\<lambda>c w. if c = ''A'' then (Inl (Exception ''Code not found or already used''), w) else (Inr (), w)),
        sign_in_or_start_register_if_needed = (\<lambda>w. (Inr True, w))\<rparr>
     \<lparr>WAIT_BETWEEN_ACCOUNTS = (5, 10), THREADS_NUM = 2, AUTO_UPDATE_INVITES = True,
        AUTO_UPDATE_INVITES_FROM_FIRST_COUNT = Count 3, MOBILE_PROXY = False\<rparr>
     [''0xa''] nobody 0 \<lparr>invites = [], world = (), events = []\<rparr> =
     (Inr ''D'', \<lparr>invites = [], world = (),
        events = [Log_updating_invites, Log_added_new 1 1, Log_invites_updated 1]\<rparr>)"
proof -
  let ?E = "\<lparr>refresh = (\<lambda>i a w. (Inr (Some [''D'']), w)), shuffle_addresses = (\<lambda>xs w. (xs, w)),
        shuffle_invites = (\<lambda>xs w. (xs, w)),
        use_invite_code = (\<lambda>c w. if c = ''A'' then (Inl (Exception ''Code not found or already used''), w) else (Inr (), w)),
        sign_in_or_start_register_if_needed = (\<lambda>w. (Inr True, w))\<rparr>"
  let ?C = "\<lparr>WAIT_BETWEEN_ACCOUNTS = (5, 10), THREADS_NUM = 2, AUTO_UPDATE_INVITES = True,
        AUTO_UPDATE_INVITES_FROM_FIRST_COUNT = Count 3, MOBILE_PROXY = False\<rparr>"
  let ?h = "\<lparr>invites = [''A'', ''B'', ''C''], world = (), events = []\<rparr>"
  let ?ha = "\<lparr>invites = [''B'', ''C''], world = (), events = []\<rparr>"
  let ?hb = "\<lparr>invites = [''B'', ''C''], world = (),
        events = [Log_entering_invite_code 1 ''A'', Log_code_already_used 1]\<rparr>"
  let ?hc = "\<lparr>invites = [], world = (),
        events = [Log_entering_invite_code 1 ''A'', Log_code_already_used 1]\<rparr>"
  let ?empty = "\<lparr>invites = [], world = (), events = []\<rparr>"
  let ?filled = "\<lparr>invites = [''D''], world = (),
        events = [Log_updating_invites, Log_added_new 1 1, Log_invites_updated 1]\<rparr>"
  let ?taken = "\<lparr>invites = [], world = (),
        events = [Log_updating_invites, Log_added_new 1 1, Log_invites_updated 1]\<rparr>"
  note inst = sign_in_invite_codes [where E = ?E and C = ?C and addresses = "[''0xa'']"
      and others = "takes_code_at 4" and k = 0 and h = ?h and c' = "''A''" and rest = "[''B'', ''C'']"
      and c = "''A''" and g = ?ha and idx = 1
      and e = "Exception ''Code not found or already used''" and w = "()"]
  have front: "invites (takes_code_at 4 0 ?h) = ''A'' # [''B'', ''C'']"
    by (simp add: takes_code_at_def)
  from inst front have draw: "draw_invite ?E ?C [''0xa''] (takes_code_at 4) 0 ?h = (Inr ''A'', ?ha)"
    by (simp add: takes_code_at_def)
  have used: "use_invite_code ?E ''A''
      (world (takes_code_at 4 (0 + 3) (emit (Log_entering_invite_code 1 ''A'') ?ha))) =
      (Inl (Exception ''Code not found or already used''), ())"
    by simp
  have phrase: "contains ''Code not found or already used'' (msg (Exception ''Code not found or already used''))"
    by simp
  from inst draw used phrase
  have "invite_loop ?E ?C [''0xa''] (takes_code_at 4) 1 0 ?h =
      invite_loop ?E ?C [''0xa''] (takes_code_at 4) 1 (0 + 4)
        (emit (Log_code_already_used 1)
           ((takes_code_at 4 (0 + 3) (emit (Log_entering_invite_code 1 ''A'') ?ha))\<lparr>world := ()\<rparr>))"
    by blast
  then have round: "invite_loop ?E ?C [''0xa''] (takes_code_at 4) 1 0 ?h =
      invite_loop ?E ?C [''0xa''] (takes_code_at 4) 1 4 ?hb"
    by (simp add: takes_code_at_def emit_def)
  have next_draw: "draw_invite ?E ?C [''0xa''] (takes_code_at 4) 4 ?hb = (Inr ''C'', ?hc)"
    by (simp add: draw_invite_def get_invite_def takes_code_at_def)
  have "invite_loop ?E ?C [''0xa''] (takes_code_at 4) 1 4 ?hb =
      Some (Inr (), (takes_code_at 4 (4 + 3) (emit (Log_entering_invite_code 1 ''C'') ?hc))\<lparr>world := ()\<rparr>)"
    by (rule invite_loop_accepted [OF next_draw]) simp
  with round have loop: "invite_loop ?E ?C [''0xa''] (takes_code_at 4) 1 0 ?h =
      Some (Inr (), \<lparr>invites = [], world = (), events = [Log_entering_invite_code 1 ''A'',
        Log_code_already_used 1, Log_entering_invite_code 1 ''C'']\<rparr>)"
    by (simp add: takes_code_at_def emit_def)
  have upd: "update_invites ?E ?C [''0xa''] ?empty = (Inr (), ?filled)"
    by (simp add: update_invites_def update_invites_body_def enumerate1_def py_slice_to_def
        enumerate_eq_zip emit_def)
  note inst' = sign_in_invite_codes [where E = ?E and C = ?C and addresses = "[''0xa'']"
      and others = "takes_code_at 2" and k = 0 and h = ?empty]
  note no_codes = inst' [THEN conjunct2, THEN conjunct2, THEN conjunct2, THEN conjunct1]
  have none: "fst (draw_invite ?E ?C [''0xa''] (takes_code_at 2) 0 ?empty) =
      Inl (Exception ''No invite codes left'')"
    by (rule iffD2 [OF no_codes]) (simp add: takes_code_at_def upd get_invite_def)
  have alone: "draw_invite ?E ?C [''0xa''] nobody 0 ?empty = (Inr ''D'', ?taken)"
    by (simp add: draw_invite_def get_invite_def nobody_def upd)
  show ?thesis
    by (intro conjI; (rule loop | rule none | rule alone))
qed

section \<open>Properties: Batch Orchestrator: \<open>process_batch\<close> and \<open>process\<close> (main.py)\<close>

lemma splitlines_from_nonempty:
  "cur \<noteq> [] \<or> s \<noteq> [] \<Longrightarrow> splitlines_from cur s \<noteq> []"
  by (induction cur s rule: splitlines_from.induct) (auto split: list.splits)

lemma splitlines_nonempty: "s \<noteq> [] \<Longrightarrow> splitlines s \<noteq> []"
  by (simp add: splitlines_def splitlines_from_nonempty)

lemma process_one_returns:
  "process_one appends_succeed f sleep (idx, d) used st =
     (Inr (used + (if consumed_invite (fst (f d (shared st))) then 1 else 0)),
      st\<lparr>shared := snd (f d (shared st)),
         trace := trace st @ round_events sleep idx d (fst (f d (shared st)))\<rparr>)"
proof (cases "f d (shared st)")
  case (Pair out w)
  show ?thesis
  proof (cases out)
    case (Inr result)
    with Pair show ?thesis
      by (simp add: process_one_def round_events_def observe_def appends_succeed_def)
  next
    case (Inl e)
    let ?m = "if msg e = [] then '' '' else msg e"
    have "?m \<noteq> []" by simp
    then have "splitlines ?m \<noteq> []" by (rule splitlines_nonempty)
    then obtain l ls where ls: "splitlines ?m = l # ls"
      by (cases "splitlines ?m") auto
    with Pair Inl show ?thesis
      by (simp add: process_one_def round_events_def observe_def Let_def appends_succeed_def)
  qed
qed




subsection \<open>\<open>process\<close>: the batches as concurrent tasks\<close>
















text \<open>
  A task that runs alone is a run of \<open>process_batch\<close>: with one batch, \<open>process\<close>
  returns what \<open>process_batch\<close> returns.
\<close>

lemma run_task_alone:
  assumes "process_batch_loop appends_succeed f sleep ps u st = (Inr n, st')"
  shows "fold (sched_step appends_succeed C f sleep) (replicate (Suc (length ps)) 0)
           ([t\<lparr>pending := ps, used_invites := u, status := Task_running\<rparr>], st) =
         ([t\<lparr>pending := [], used_invites := n, status := Task_done (Inr n)\<rparr>], st')"
  using assms
proof (induction ps arbitrary: u st)
  case Nil
  then show ?case
    by (simp add: sched_step_def task_step_def)
next
  case (Cons p ps)
  obtain idx d where p: "p = (idx, d)" by (cases p)
  let ?u = "u + (if consumed_invite (fst (f d (shared st))) then 1 else 0)"
  let ?st = "st\<lparr>shared := snd (f d (shared st)),
         trace := trace st @ round_events sleep idx d (fst (f d (shared st)))\<rparr>"
  from Cons.prems p have "process_batch_loop appends_succeed f sleep ps ?u ?st = (Inr n, st')"
    by (simp add: process_one_returns)
  from Cons.IH [OF this]
  have rest: "fold (sched_step appends_succeed C f sleep) (replicate (Suc (length ps)) 0)
      ([t\<lparr>pending := ps, used_invites := ?u, status := Task_running\<rparr>], ?st) =
      ([t\<lparr>pending := [], used_invites := n, status := Task_done (Inr n)\<rparr>], st')" .
  have step: "sched_step appends_succeed C f sleep 0 ([t\<lparr>pending := p # ps, used_invites := u, status := Task_running\<rparr>], st) =
      ([t\<lparr>pending := ps, used_invites := ?u, status := Task_running\<rparr>], ?st)"
    by (simp add: sched_step_def task_step_def process_one_returns p)
  have "fold (sched_step appends_succeed C f sleep) (replicate (Suc (length (p # ps))) 0)
      ([t\<lparr>pending := p # ps, used_invites := u, status := Task_running\<rparr>], st) =
      fold (sched_step appends_succeed C f sleep) (replicate (Suc (length ps)) 0)
        (sched_step appends_succeed C f sleep 0 ([t\<lparr>pending := p # ps, used_invites := u, status := Task_running\<rparr>], st))"
    by (simp only: length_Cons replicate_Suc fold_simps)
  with step rest show ?case by simp
qed

lemma process_single_batch:
  assumes "THREADS_NUM C \<noteq> 0" and "process_batch appends_succeed C 0 b f sleep st = (Inr n, st')"
  shows "process appends_succeed C [b] f sleep (replicate (length b + 2) 0) st = (Some (Inr [n]), st')"
proof -
  let ?t = "\<lparr>task_bid = 0, pending = enumerate 0 b, used_invites = 0, status = Task_ready\<rparr>"
  from assms have loop: "process_batch_loop appends_succeed f sleep (enumerate 0 b) 0 (observe (Sleep_stagger 0) st) = (Inr n, st')"
    by (simp add: process_batch_def)
  have first: "sched_step appends_succeed C f sleep 0 ([?t], st) =
      ([?t\<lparr>pending := enumerate 0 b, used_invites := 0, status := Task_running\<rparr>], observe (Sleep_stagger 0) st)"
    using assms(1) by (simp add: sched_step_def task_step_def)
  have "replicate (length b + 2) (0::nat) = 0 # replicate (Suc (length (enumerate 0 b))) 0"
    by simp
  then have "fold (sched_step appends_succeed C f sleep) (replicate (length b + 2) 0) ([?t], st) =
      fold (sched_step appends_succeed C f sleep) (replicate (Suc (length (enumerate 0 b))) 0)
        ([?t\<lparr>pending := enumerate 0 b, used_invites := 0, status := Task_running\<rparr>], observe (Sleep_stagger 0) st)"
    by (simp only: fold_simps first)
  also have "\<dots> = ([?t\<lparr>pending := [], used_invites := n, status := Task_done (Inr n)\<rparr>], st')"
    by (rule run_task_alone [OF loop])
  finally show ?thesis
    by (simp add: process_def create_tasks_def)
qed




section \<open>Properties: Transaction Lifecycle: \<open>Account\<close> (account.py)\<close>

subsection \<open>\<open>tx_verification\<close>\<close>

lemma poll_chain_Suc:
  "poll_chain S h w (Suc k) = snd (get_transaction_receipt S h (poll_chain S h w k))"
  by (induction k arbitrary: w) simp_all

lemma poll_reply_shift:
  "poll_reply S h (snd (get_transaction_receipt S h w)) k = poll_reply S h w (Suc k)"
  by (simp add: poll_reply_def)

lemma idle_polls_Suc:
  "idle_polls (Suc k) l = [Call_get_transaction_receipt, Sleep_poll l] @ idle_polls k l"
  by (simp add: idle_polls_def)

lemma poll_loop_idle_step:
  assumes "t < 150" and "no_receipt (poll_reply S h (chain a) 0)"
  shows "poll_loop S h l t a =
         poll_loop S h l (t + l)
           (a\<lparr>chain := snd (get_transaction_receipt S h (chain a)),
              actions := actions a @ [Call_get_transaction_receipt, Sleep_poll l]\<rparr>)"
proof (cases "get_transaction_receipt S h (chain a)")
  case (Pair reply w)
  with assms(2) have "no_receipt reply"
    by (simp add: poll_reply_def)
  with Pair assms(1) show ?thesis
    by (subst poll_loop.simps, cases reply rule: no_receipt.cases)
      (simp_all add: call_def act_def)
qed

lemma poll_loop_pending:
  assumes "n = nat (150 - t)" and "t \<le> 150"
    and "\<forall>j < n. no_receipt (poll_reply S h (chain a) j)"
  shows "poll_loop S h 1 t a =
         Some (Inr (), a\<lparr>chain := poll_chain S h (chain a) n,
                         actions := actions a @ idle_polls n 1 @ [Log_pending_tx]\<rparr>)"
  using assms
proof (induction n arbitrary: t a)
  case 0
  then have "\<not> t < 150" by simp
  then show ?case
    by (subst poll_loop.simps) (simp add: act_def idle_polls_def)
next
  case (Suc n)
  then have t: "t < 150" by simp
  let ?a = "a\<lparr>chain := snd (get_transaction_receipt S h (chain a)),
              actions := actions a @ [Call_get_transaction_receipt, Sleep_poll 1]\<rparr>"
  from Suc.prems(3) have first: "no_receipt (poll_reply S h (chain a) 0)"
    by simp
  have rest: "\<forall>j < n. no_receipt (poll_reply S h (chain ?a) j)"
    using Suc.prems(3) by (simp add: poll_reply_shift)
  have n: "n = nat (150 - (t + 1))" and le: "t + 1 \<le> 150"
    using Suc.prems(1) t by simp_all
  have "poll_loop S h 1 t a = poll_loop S h 1 (t + 1) ?a"
    by (rule poll_loop_idle_step [OF t first])
  also have "\<dots> = Some (Inr (), ?a\<lparr>chain := poll_chain S h (chain ?a) n,
                         actions := actions ?a @ idle_polls n 1 @ [Log_pending_tx]\<rparr>)"
    by (rule Suc.IH [OF n le rest])
  finally show ?case
    by (simp add: idle_polls_Suc)
qed

lemma poll_loop_receipt:
  assumes "t + int k < 150"
    and "\<forall>j < k. no_receipt (poll_reply S h (chain a) j)"
    and "poll_reply S h (chain a) k = Inr (Some r)"
  shows "poll_loop S h 1 t a =
         Some (Inr (), a\<lparr>chain := poll_chain S h (chain a) (Suc k),
                         actions := actions a @ idle_polls k 1 @
                           [Call_get_transaction_receipt,
                            if receipt_status r = Some 1 then Log_successful_tx else Log_failed_tx] @
                           map Log_received (received_lines S r)\<rparr>)"
  using assms
proof (induction k arbitrary: t a)
  case 0
  then have t: "t < 150" by simp
  obtain reply w where g: "get_transaction_receipt S h (chain a) = (reply, w)"
    by (cases "get_transaction_receipt S h (chain a)")
  with "0.prems"(3) have "reply = Inr (Some r)"
    by (simp add: poll_reply_def)
  with g t show ?case
    by (subst poll_loop.simps) (simp add: call_def act_def idle_polls_def)
next
  case (Suc k)
  then have t: "t < 150" by simp
  let ?a = "a\<lparr>chain := snd (get_transaction_receipt S h (chain a)),
              actions := actions a @ [Call_get_transaction_receipt, Sleep_poll 1]\<rparr>"
  from Suc.prems(2) have first: "no_receipt (poll_reply S h (chain a) 0)"
    by simp
  have rest: "\<forall>j < k. no_receipt (poll_reply S h (chain ?a) j)"
    using Suc.prems(2) by (simp add: poll_reply_shift)
  have r: "poll_reply S h (chain ?a) k = Inr (Some r)"
    using Suc.prems(3) by (simp add: poll_reply_shift)
  have le: "(t + 1) + int k < 150"
    using Suc.prems(1) by simp
  have "poll_loop S h 1 t a = poll_loop S h 1 (t + 1) ?a"
    by (rule poll_loop_idle_step [OF t first])
  also have "\<dots> = Some (Inr (), ?a\<lparr>chain := poll_chain S h (chain ?a) (Suc k),
                         actions := actions ?a @ idle_polls k 1 @
                           [Call_get_transaction_receipt,
                            if receipt_status r = Some 1 then Log_successful_tx else Log_failed_tx] @
                           map Log_received (received_lines S r)\<rparr>)"
    by (rule Suc.IH [OF le rest r])
  finally show ?case
    by (simp add: idle_polls_Suc)
qed

text \<open>
  Claim C4. With the poll interval of one second (the default, which every caller
  uses): when none of the 150 polls has a receipt, \<open>tx_verification\<close> polls 150 times,
  pauses one second after each poll, writes the pending line and returns normally; the
  line is neither the success line nor the failure line, and neither of those is
  written. When a poll within the budget has a receipt, the success line is written for
  status 1 and the failure line for any other status, and \<open>tx_verification\<close> returns
  at once: no further poll, no retry.
\<close>

theorem tx_verification_outcomes:
  "((\<forall>j < 150. no_receipt (poll_reply S h (chain a) j)) \<longrightarrow>
      tx_verification S h 1 a =
        Some (Inr (), a\<lparr>chain := poll_chain S h (chain a) 150,
                        actions := actions a @ [Log_tx_sent] @ idle_polls 150 1 @ [Log_pending_tx]\<rparr>)) \<and>
   (k < 150 \<and> (\<forall>j < k. no_receipt (poll_reply S h (chain a) j)) \<and>
      poll_reply S h (chain a) k = Inr (Some r) \<longrightarrow>
      tx_verification S h 1 a =
        Some (Inr (), a\<lparr>chain := poll_chain S h (chain a) (Suc k),
                        actions := actions a @ [Log_tx_sent] @ idle_polls k 1 @
                          [Call_get_transaction_receipt,
                           if receipt_status r = Some 1 then Log_successful_tx else Log_failed_tx] @
                          map Log_received (received_lines S r)\<rparr>)) \<and>
   length (filter (\<lambda>x. x = Call_get_transaction_receipt) (idle_polls 150 1)) = 150 \<and>
   length (filter (\<lambda>x. x = Sleep_poll 1) (idle_polls 150 1)) = 150 \<and>
   Log_successful_tx \<notin> set ([Log_tx_sent] @ idle_polls 150 1 @ [Log_pending_tx]) \<and>
   Log_failed_tx \<notin> set ([Log_tx_sent] @ idle_polls 150 1 @ [Log_pending_tx])"
proof (intro conjI impI)
  assume none: "\<forall>j < 150. no_receipt (poll_reply S h (chain a) j)"
  have "poll_loop S h 1 0 (act Log_tx_sent a) =
      Some (Inr (), (act Log_tx_sent a)\<lparr>chain := poll_chain S h (chain (act Log_tx_sent a)) 150,
          actions := actions (act Log_tx_sent a) @ idle_polls 150 1 @ [Log_pending_tx]\<rparr>)"
    by (rule poll_loop_pending) (use none in \<open>simp_all add: act_def\<close>)
  then show "tx_verification S h 1 a =
        Some (Inr (), a\<lparr>chain := poll_chain S h (chain a) 150,
                        actions := actions a @ [Log_tx_sent] @ idle_polls 150 1 @ [Log_pending_tx]\<rparr>)"
    by (simp add: tx_verification_def act_def)
next
  assume hyp: "k < 150 \<and> (\<forall>j < k. no_receipt (poll_reply S h (chain a) j)) \<and>
      poll_reply S h (chain a) k = Inr (Some r)"
  have "poll_loop S h 1 0 (act Log_tx_sent a) =
      Some (Inr (), (act Log_tx_sent a)\<lparr>chain := poll_chain S h (chain (act Log_tx_sent a)) (Suc k),
          actions := actions (act Log_tx_sent a) @ idle_polls k 1 @
            [Call_get_transaction_receipt,
             if receipt_status r = Some 1 then Log_successful_tx else Log_failed_tx] @
            map Log_received (received_lines S r)\<rparr>)"
    by (rule poll_loop_receipt) (use hyp in \<open>simp_all add: act_def\<close>)
  then show "tx_verification S h 1 a =
        Some (Inr (), a\<lparr>chain := poll_chain S h (chain a) (Suc k),
                        actions := actions a @ [Log_tx_sent] @ idle_polls k 1 @
                          [Call_get_transaction_receipt,
                           if receipt_status r = Some 1 then Log_successful_tx else Log_failed_tx] @
                          map Log_received (received_lines S r)\<rparr>)"
    by (simp add: tx_verification_def act_def)
next
  have "length (filter (\<lambda>x. x = Call_get_transaction_receipt) (idle_polls n l)) = n" for n l
    by (induction n) (simp_all add: idle_polls_def)
  then show "length (filter (\<lambda>x. x = Call_get_transaction_receipt) (idle_polls 150 1)) = 150" .
next
  have "length (filter (\<lambda>x. x = Sleep_poll l) (idle_polls n l)) = n" for n l
    by (induction n) (simp_all add: idle_polls_def)
  then show "length (filter (\<lambda>x. x = Sleep_poll 1) (idle_polls 150 1)) = 150" .
next
  show "Log_successful_tx \<notin> set ([Log_tx_sent] @ idle_polls 150 1 @ [Log_pending_tx])"
    by (auto simp: idle_polls_def)
next
  show "Log_failed_tx \<notin> set ([Log_tx_sent] @ idle_polls 150 1 @ [Log_pending_tx])"
    by (auto simp: idle_polls_def)
qed

theorem tx_verification_outcomes_witness:
  "tx_verification
     \<lparr>get_transaction_count = (\<lambda>addr w. (Inr 7, w)),
        build_transaction = (\<lambda>f addr n p w. (Inr \<lparr>tx_call = f, tx_from = addr, tx_nonce = n, tx_gas_price = p, tx_gas = None\<rparr>, w)),
        estimate_gas = (\<lambda>t w. (Inr 21000, w)),
        sign_transaction = (\<lambda>t key. Inr ''raw''),
        send_raw_transaction = (\<lambda>raw w. (Inr ''0xh'', w)),
        get_transaction_receipt = (\<lambda>h w. (Inl (Raised ''TransactionNotFound'' ''not found''), Suc w)),
        generate_codes = (\<lambda>w. (Inr (), w)),
        me = (\<lambda>w. (Inr \<lparr>linkedAddress = Inr None, account_fields = None\<rparr>, w)),
        received_lines = (\<lambda>r. receipt_logs r)\<rparr>
     ''0xh'' 1
     \<lparr>address = ''0xa'', profile = \<lparr>linkedAddress = Inr (Some ''0xa''), account_fields = None\<rparr>, private_key = Some ''key'',
        chain = 0::nat, actions = []\<rparr> =
   Some (Inr (), \<lparr>address = ''0xa'', profile = \<lparr>linkedAddress = Inr (Some ''0xa''), account_fields = None\<rparr>, private_key = Some ''key'',
        chain = poll_chain
     \<lparr>get_transaction_count = (\<lambda>addr w. (Inr 7, w)),
        build_transaction = (\<lambda>f addr n p w. (Inr \<lparr>tx_call = f, tx_from = addr, tx_nonce = n, tx_gas_price = p, tx_gas = None\<rparr>, w)),
        estimate_gas = (\<lambda>t w. (Inr 21000, w)),
        sign_transaction = (\<lambda>t key. Inr ''raw''),
        send_raw_transaction = (\<lambda>raw w. (Inr ''0xh'', w)),
        get_transaction_receipt = (\<lambda>h w. (Inl (Raised ''TransactionNotFound'' ''not found''), Suc w)),
        generate_codes = (\<lambda>w. (Inr (), w)),
        me = (\<lambda>w. (Inr \<lparr>linkedAddress = Inr None, account_fields = None\<rparr>, w)),
        received_lines = (\<lambda>r. receipt_logs r)\<rparr> ''0xh'' 0 150,
        actions = [Log_tx_sent] @ idle_polls 150 1 @ [Log_pending_tx]\<rparr>) \<and>
   tx_verification
     \<lparr>get_transaction_count = (\<lambda>addr w. (Inr 7, w)),
        build_transaction = (\<lambda>f addr n p w. (Inr \<lparr>tx_call = f, tx_from = addr, tx_nonce = n, tx_gas_price = p, tx_gas = None\<rparr>, w)),
        estimate_gas = (\<lambda>t w. (Inr 21000, w)),
        sign_transaction = (\<lambda>t key. Inr ''raw''),
        send_raw_transaction = (\<lambda>raw w. (Inr ''0xh'', w)),
        get_transaction_receipt = (\<lambda>h w. (if w < 2 then Inr None else Inr (Some \<lparr>receipt_status = Some 0, receipt_logs = []\<rparr>), Suc w)),
        generate_codes = (\<lambda>w. (Inr (), w)),
        me = (\<lambda>w. (Inr \<lparr>linkedAddress = Inr None, account_fields = None\<rparr>, w)),
        received_lines = (\<lambda>r. receipt_logs r)\<rparr>
     ''0xh'' 1
     \<lparr>address = ''0xa'', profile = \<lparr>linkedAddress = Inr (Some ''0xa''), account_fields = None\<rparr>, private_key = Some ''key'',
        chain = 0::nat, actions = []\<rparr> =
   Some (Inr (), \<lparr>address = ''0xa'', profile = \<lparr>linkedAddress = Inr (Some ''0xa''), account_fields = None\<rparr>, private_key = Some ''key'',
        chain = 3,
        actions = [Log_tx_sent, Call_get_transaction_receipt, Sleep_poll 1,
                   Call_get_transaction_receipt, Sleep_poll 1,
                   Call_get_transaction_receipt, Log_failed_tx]\<rparr>)"
proof -
  let ?P = "\<lparr>get_transaction_count = (\<lambda>addr w. (Inr 7, w)),
        build_transaction = (\<lambda>f addr n p w. (Inr \<lparr>tx_call = f, tx_from = addr, tx_nonce = n, tx_gas_price = p, tx_gas = None\<rparr>, w)),
        estimate_gas = (\<lambda>t w. (Inr 21000, w)),
        sign_transaction = (\<lambda>t key. Inr ''raw''),
        send_raw_transaction = (\<lambda>raw w. (Inr ''0xh'', w)),
        get_transaction_receipt = (\<lambda>h w. (Inl (Raised ''TransactionNotFound'' ''not found''), Suc w)),
        generate_codes = (\<lambda>w. (Inr (), w)),
        me = (\<lambda>w. (Inr \<lparr>linkedAddress = Inr None, account_fields = None\<rparr>, w)),
        received_lines = (\<lambda>r. receipt_logs r)\<rparr>"
  let ?F = "\<lparr>get_transaction_count = (\<lambda>addr w. (Inr 7, w)),
        build_transaction = (\<lambda>f addr n p w. (Inr \<lparr>tx_call = f, tx_from = addr, tx_nonce = n, tx_gas_price = p, tx_gas = None\<rparr>, w)),
        estimate_gas = (\<lambda>t w. (Inr 21000, w)),
        sign_transaction = (\<lambda>t key. Inr ''raw''),
        send_raw_transaction = (\<lambda>raw w. (Inr ''0xh'', w)),
        get_transaction_receipt = (\<lambda>h w. (if w < 2 then Inr None else Inr (Some \<lparr>receipt_status = Some 0, receipt_logs = []\<rparr>), Suc w)),
        generate_codes = (\<lambda>w. (Inr (), w)),
        me = (\<lambda>w. (Inr \<lparr>linkedAddress = Inr None, account_fields = None\<rparr>, w)),
        received_lines = (\<lambda>r. receipt_logs r)\<rparr>"
  let ?a = "\<lparr>address = ''0xa'', profile = \<lparr>linkedAddress = Inr (Some ''0xa''), account_fields = None\<rparr>, private_key = Some ''key'',
        chain = 0::nat, actions = []\<rparr>"
  let ?r = "\<lparr>receipt_status = Some 0, receipt_logs = []\<rparr>"
  have none: "\<forall>j < 150. no_receipt (poll_reply ?P ''0xh'' (chain ?a) j)"
    by (simp add: poll_reply_def)
  have pending: "tx_verification ?P ''0xh'' 1 ?a =
      Some (Inr (), ?a\<lparr>chain := poll_chain ?P ''0xh'' (chain ?a) 150,
                      actions := actions ?a @ [Log_tx_sent] @ idle_polls 150 1 @ [Log_pending_tx]\<rparr>)"
    by (rule tx_verification_outcomes [of ?P "''0xh''" ?a 0 ?r, THEN conjunct1, THEN mp, OF none])
  have two: "poll_chain ?F ''0xh'' 0 (Suc (Suc 0)) = 2" and three: "poll_chain ?F ''0xh'' 0 (Suc (Suc (Suc 0))) = 3"
    by simp_all
  have hyp: "(2::nat) < 150 \<and> (\<forall>j < 2. no_receipt (poll_reply ?F ''0xh'' (chain ?a) j)) \<and>
      poll_reply ?F ''0xh'' (chain ?a) 2 = Inr (Some ?r)"
    by (simp add: poll_reply_def less_Suc_eq numeral_2_eq_2)
  have failed: "tx_verification ?F ''0xh'' 1 ?a =
      Some (Inr (), ?a\<lparr>chain := poll_chain ?F ''0xh'' (chain ?a) (Suc 2),
                      actions := actions ?a @ [Log_tx_sent] @ idle_polls 2 1 @
                        [Call_get_transaction_receipt,
                         if receipt_status ?r = Some 1 then Log_successful_tx else Log_failed_tx] @
                        map Log_received (received_lines ?F ?r)\<rparr>)"
    by (rule tx_verification_outcomes [of ?F "''0xh''" ?a 2 ?r, THEN conjunct2, THEN conjunct1, THEN mp, OF hyp])
  from pending failed show ?thesis
    by (simp add: idle_polls_def numeral_2_eq_2)
qed

subsection \<open>\<open>build_and_send_tx\<close>: a failed simulation\<close>

lemma refreshes_refresh_profile:
  "refreshes (snd (refresh_profile S a)) = Suc (refreshes a)"
  by (auto simp: refresh_profile_def call_def act_def refreshes_def
      split: prod.splits sum.splits option.splits)

text \<open>
  Claim C5, as stated, at a refresh that fails: the simulation fails, the linked address
  is the account's address, the refresh is triggered and raises, and the error of the
  attempt is the refresh's error, not \<open>Tx simulation failed\<close>.
\<close>

theorem simulation_failed_refresh_raises:
  "build_and_send_tx_attempt
     \<lparr>get_transaction_count = (\<lambda>addr w. (Inr 7, w)),
        build_transaction = (\<lambda>f addr n p w. (Inr \<lparr>tx_call = f, tx_from = addr, tx_nonce = n, tx_gas_price = p, tx_gas = None\<rparr>, w)),
        estimate_gas = (\<lambda>t w. (Inl (Exception ''execution reverted''), w)),
        sign_transaction = (\<lambda>t key. Inr ''raw''),
        send_raw_transaction = (\<lambda>raw w. (Inr ''0xh'', w)),
        get_transaction_receipt = (\<lambda>h w. (Inr None, w)),
        generate_codes = (\<lambda>w. (Inl (Exception ''platform down''), w)),
        me = (\<lambda>w. (Inr \<lparr>linkedAddress = Inr (Some ''0xa''), account_fields = None\<rparr>, w)),
        received_lines = (\<lambda>r. receipt_logs r)\<rparr>
     ''rankupQuestAmount''
     \<lparr>address = ''0xa'', profile = \<lparr>linkedAddress = Inr (Some ''0xa''), account_fields = None\<rparr>, private_key = Some ''key'',
        chain = (), actions = []\<rparr> =
   (Inl (Exception ''platform down''),
    \<lparr>address = ''0xa'', profile = \<lparr>linkedAddress = Inr (Some ''0xa''), account_fields = None\<rparr>, private_key = Some ''key'',
        chain = (), actions = [Call_get_transaction_count, Call_build_transaction, Call_estimate_gas,
                   Log_simulation_failed_refreshing, Call_generate_codes]\<rparr>)"
  by (simp add: build_and_send_tx_attempt_def call_def act_def refresh_profile_def)

text \<open>
  Claim C5, amended. When the simulation (\<open>estimate_gas\<close>) of an attempt of
  \<open>build_and_send_tx\<close> fails, the attempt ends with an error, and before that it
  triggers exactly one profile refresh if the profile's linked address equals the
  account's address and none otherwise. The error is \<open>Tx simulation failed: ...\<close> when
  the linked address is read and differs from the account's address, or when the refresh
  returns normally; when reading the linked address raises, or the refresh itself raises,
  that error is the one that leaves the attempt.
\<close>

theorem simulation_failure_refreshes_profile:
  assumes "private_key a = Some key"
    and "get_transaction_count S (address a) (chain a) = (Inr nonce, w1)"
    and "build_transaction S func (address a) nonce GAS_PRICE w1 = (Inr t, w2)"
    and "estimate_gas S t w2 = (Inl e, w3)"
    and "a3 = a\<lparr>chain := w3, actions := actions a @
           [Call_get_transaction_count, Call_build_transaction, Call_estimate_gas]\<rparr>"
  shows "(\<exists>e'. fst (build_and_send_tx_attempt S func a) = Inl e') \<and>
         refreshes (snd (build_and_send_tx_attempt S func a)) =
           refreshes a + (if linkedAddress (profile a) = Inr (Some (address a)) then 1 else 0) \<and>
         (\<forall>e'. linkedAddress (profile a) = Inl e' \<longrightarrow>
            build_and_send_tx_attempt S func a = (Inl e', a3)) \<and>
         (\<forall>linked. linkedAddress (profile a) = Inr linked \<and> linked \<noteq> Some (address a) \<longrightarrow>
            build_and_send_tx_attempt S func a =
              (Inl (Exception (''Tx simulation failed: '' @ msg e)), a3)) \<and>
         (linkedAddress (profile a) = Inr (Some (address a)) \<longrightarrow>
            (\<forall>a4. refresh_profile S (act Log_simulation_failed_refreshing a3) = (Inr (), a4) \<longrightarrow>
               build_and_send_tx_attempt S func a =
                 (Inl (Exception (''Tx simulation failed: '' @ msg e)), a4)) \<and>
            (\<forall>e' a4. refresh_profile S (act Log_simulation_failed_refreshing a3) = (Inl e', a4) \<longrightarrow>
               build_and_send_tx_attempt S func a = (Inl e', a4)))"
proof (cases "linkedAddress (profile a) = Inr (Some (address a))")
  case False
  show ?thesis
  proof (cases "linkedAddress (profile a)")
    case (Inl e')
    with assms have "build_and_send_tx_attempt S func a = (Inl e', a3)"
      by (simp add: build_and_send_tx_attempt_def call_def act_def)
    with Inl assms(5) show ?thesis
      by (simp add: refreshes_def)
  next
    case (Inr linked)
    with False have "linked \<noteq> Some (address a)"
      by simp
    with Inr assms have "build_and_send_tx_attempt S func a =
        (Inl (Exception (''Tx simulation failed: '' @ msg e)), a3)"
      by (simp add: build_and_send_tx_attempt_def call_def act_def)
    with Inr False assms(5) show ?thesis
      by (simp add: refreshes_def)
  qed
next
  case True
  let ?b = "act Log_simulation_failed_refreshing a3"
  obtain r a4 where ref: "refresh_profile S ?b = (r, a4)"
    by (cases "refresh_profile S ?b")
  from True assms have run: "build_and_send_tx_attempt S func a =
      (case refresh_profile S ?b of
         (Inl e', a4) \<Rightarrow> (Inl e', a4)
       | (Inr u, a4) \<Rightarrow> (Inl (Exception (''Tx simulation failed: '' @ msg e)), a4))"
    by (simp add: build_and_send_tx_attempt_def call_def act_def)
  have "refreshes a4 = Suc (refreshes ?b)"
    using refreshes_refresh_profile [of S ?b] ref by simp
  moreover have "refreshes ?b = refreshes a"
    using assms(5) by (simp add: refreshes_def act_def)
  ultimately have count: "refreshes a4 = refreshes a + 1"
    by simp
  show ?thesis
  proof (cases r)
    case (Inl e')
    with run ref count True show ?thesis by simp
  next
    case (Inr u)
    with run ref count True show ?thesis by simp
  qed
qed

theorem simulation_failure_refreshes_profile_witness:
  "build_and_send_tx_attempt
     \<lparr>get_transaction_count = (\<lambda>addr w. (Inr 7, w)),
        build_transaction = (\<lambda>f addr n p w. (Inr \<lparr>tx_call = f, tx_from = addr, tx_nonce = n, tx_gas_price = p, tx_gas = None\<rparr>, w)),
        estimate_gas = (\<lambda>t w. (Inl (Exception ''execution reverted''), w)),
        sign_transaction = (\<lambda>t key. Inr ''raw''),
        send_raw_transaction = (\<lambda>raw w. (Inr ''0xh'', w)),
        get_transaction_receipt = (\<lambda>h w. (Inr None, w)),
        generate_codes = (\<lambda>w. (Inr (), w)),
        me = (\<lambda>w. (Inr \<lparr>linkedAddress = Inr (Some ''0xa''), account_fields = None\<rparr>, w)),
        received_lines = (\<lambda>r. receipt_logs r)\<rparr>
     ''rankupQuestAmount''
     \<lparr>address = ''0xa'', profile = \<lparr>linkedAddress = Inr (Some ''0xa''), account_fields = None\<rparr>, private_key = Some ''key'',
        chain = (), actions = []\<rparr> =
   (Inl (Exception ''Tx simulation failed: execution reverted''),
    \<lparr>address = ''0xa'', profile = \<lparr>linkedAddress = Inr (Some ''0xa''), account_fields = None\<rparr>, private_key = Some ''key'',
        chain = (), actions = [Call_get_transaction_count, Call_build_transaction, Call_estimate_gas,
                   Log_simulation_failed_refreshing, Call_generate_codes, Call_me]\<rparr>) \<and>
   refreshes (snd (build_and_send_tx_attempt
     \<lparr>get_transaction_count = (\<lambda>addr w. (Inr 7, w)),
        build_transaction = (\<lambda>f addr n p w. (Inr \<lparr>tx_call = f, tx_from = addr, tx_nonce = n, tx_gas_price = p, tx_gas = None\<rparr>, w)),
        estimate_gas = (\<lambda>t w. (Inl (Exception ''execution reverted''), w)),
        sign_transaction = (\<lambda>t key. Inr ''raw''),
        send_raw_transaction = (\<lambda>raw w. (Inr ''0xh'', w)),
        get_transaction_receipt = (\<lambda>h w. (Inr None, w)),
        generate_codes = (\<lambda>w. (Inr (), w)),
        me = (\<lambda>w. (Inr \<lparr>linkedAddress = Inr (Some ''0xa''), account_fields = None\<rparr>, w)),
        received_lines = (\<lambda>r. receipt_logs r)\<rparr>
     ''rankupQuestAmount''
     \<lparr>address = ''0xa'', profile = \<lparr>linkedAddress = Inr (Some ''0xa''), account_fields = None\<rparr>, private_key = Some ''key'',
        chain = (), actions = []\<rparr>)) = 1"
proof -
  let ?S = "\<lparr>get_transaction_count = (\<lambda>addr w. (Inr 7, w)),
        build_transaction = (\<lambda>f addr n p w. (Inr \<lparr>tx_call = f, tx_from = addr, tx_nonce = n, tx_gas_price = p, tx_gas = None\<rparr>, w)),
        estimate_gas = (\<lambda>t w. (Inl (Exception ''execution reverted''), w)),
        sign_transaction = (\<lambda>t key. Inr ''raw''),
        send_raw_transaction = (\<lambda>raw w. (Inr ''0xh'', w)),
        get_transaction_receipt = (\<lambda>h w. (Inr None, w)),
        generate_codes = (\<lambda>w. (Inr (), w)),
        me = (\<lambda>w. (Inr \<lparr>linkedAddress = Inr (Some ''0xa''), account_fields = None\<rparr>, w)),
        received_lines = (\<lambda>r. receipt_logs r)\<rparr>"
  let ?a = "\<lparr>address = ''0xa'', profile = \<lparr>linkedAddress = Inr (Some ''0xa''), account_fields = None\<rparr>, private_key = Some ''key'',
        chain = (), actions = []\<rparr>"
  let ?t = "\<lparr>tx_call = ''rankupQuestAmount'', tx_from = ''0xa'', tx_nonce = 7, tx_gas_price = GAS_PRICE, tx_gas = None\<rparr>"
  let ?b = "\<lparr>address = ''0xa'', profile = \<lparr>linkedAddress = Inr (Some ''0xa''), account_fields = None\<rparr>, private_key = Some ''key'',
        chain = (), actions = [Call_get_transaction_count, Call_build_transaction, Call_estimate_gas]\<rparr>"
  let ?c = "\<lparr>address = ''0xa'', profile = \<lparr>linkedAddress = Inr (Some ''0xa''), account_fields = None\<rparr>, private_key = Some ''key'',
        chain = (), actions = [Call_get_transaction_count, Call_build_transaction, Call_estimate_gas,
                   Log_simulation_failed_refreshing, Call_generate_codes, Call_me]\<rparr>"
  have 1: "private_key ?a = Some ''key''" by simp
  have 2: "get_transaction_count ?S (address ?a) (chain ?a) = (Inr 7, ())" by simp
  have 3: "build_transaction ?S ''rankupQuestAmount'' (address ?a) 7 GAS_PRICE () = (Inr ?t, ())" by simp
  have 4: "estimate_gas ?S ?t () = (Inl (Exception ''execution reverted''), ())" by simp
  have 5: "?b = ?a\<lparr>chain := (), actions := actions ?a @
           [Call_get_transaction_count, Call_build_transaction, Call_estimate_gas]\<rparr>" by simp
  have linked: "linkedAddress (profile ?a) = Inr (Some (address ?a))" by simp
  have ref: "refresh_profile ?S (act Log_simulation_failed_refreshing ?b) = (Inr (), ?c)"
    by (simp add: refresh_profile_def call_def act_def)
  note inst = simulation_failure_refreshes_profile [OF 1 2 3 4 5]
  from inst linked ref
  have "build_and_send_tx_attempt ?S ''rankupQuestAmount'' ?a =
      (Inl (Exception (''Tx simulation failed: '' @ msg (Exception ''execution reverted''))), ?c)"
    by blast
  moreover from inst linked
  have "refreshes (snd (build_and_send_tx_attempt ?S ''rankupQuestAmount'' ?a)) = refreshes ?a + 1"
    by simp
  ultimately show ?thesis
    by (simp add: refreshes_def)
qed

subsection \<open>\<open>build_and_send_tx\<close> without a private key\<close>

lemma attempt_without_key:
  "private_key a = None \<Longrightarrow>
   build_and_send_tx_attempt S func a = (Inl (Exception ''No private key specified''), a)"
  by (simp add: build_and_send_tx_attempt_def)

lemma retry_loop_without_key:
  assumes "private_key a = None"
  shows "retry_loop P n (build_and_send_tx_attempt S func) a =
         (Inl (Exception ''No private key specified''),
          a\<lparr>actions := actions a @ failure_actions P n (Exception ''No private key specified'')\<rparr>)"
  using assms
proof (induction n arbitrary: a)
  case 0
  then show ?case
    by (simp add: attempt_without_key act_def)
next
  case (Suc n)
  let ?e = "Exception ''No private key specified''"
  let ?a = "act Sleep_backoff (act (Log_retry_warning ?e) a)"
  have "private_key ?a = None"
    using Suc.prems by (simp add: act_def)
  from Suc.IH [OF this] Suc.prems show ?case
    by (simp add: attempt_without_key act_def)
qed

lemma attempts_made_failure_actions:
  "attempts_made (failure_actions P n e) = (if do_not_retry P e then 1 else Suc n)"
  by (induction n) (simp_all add: attempts_made_def)

text \<open>
  Claim C6, as stated, for a policy of three attempts whose do-not-retry class is not
  plain \<open>Exception\<close>: without a key the call fails after three attempts, two of them
  retries.
\<close>

theorem no_private_key_retried:
  "build_and_send_tx \<lparr>max_attempts = 3, do_not_retry_classes = [''DoNotRetry'']\<rparr>
     \<lparr>get_transaction_count = (\<lambda>addr w. (Inr 7, w)),
        build_transaction = (\<lambda>f addr n p w. (Inr \<lparr>tx_call = f, tx_from = addr, tx_nonce = n, tx_gas_price = p, tx_gas = None\<rparr>, w)),
        estimate_gas = (\<lambda>t w. (Inl (Exception ''execution reverted''), w)),
        sign_transaction = (\<lambda>t key. Inr ''raw''),
        send_raw_transaction = (\<lambda>raw w. (Inr ''0xh'', w)),
        get_transaction_receipt = (\<lambda>h w. (Inr None, w)),
        generate_codes = (\<lambda>w. (Inr (), w)),
        me = (\<lambda>w. (Inr \<lparr>linkedAddress = Inr (Some ''0xa''), account_fields = None\<rparr>, w)),
        received_lines = (\<lambda>r. receipt_logs r)\<rparr>
     ''rankupQuestAmount''
     \<lparr>address = ''0xa'', profile = \<lparr>linkedAddress = Inr (Some ''0xa''), account_fields = None\<rparr>, private_key = None,
        chain = (), actions = []\<rparr> =
   (Inl (Exception ''No private key specified''),
    \<lparr>address = ''0xa'', profile = \<lparr>linkedAddress = Inr (Some ''0xa''), account_fields = None\<rparr>, private_key = None,
        chain = (), actions = [Log_retry_warning (Exception ''No private key specified''), Sleep_backoff,
                   Log_retry_warning (Exception ''No private key specified''), Sleep_backoff,
                   Log_retry_warning (Exception ''No private key specified'')]\<rparr>)"
  by (simp add: build_and_send_tx_def async_retry_def build_and_send_tx_attempt_def act_def
      do_not_retry_def numeral_2_eq_2)

text \<open>
  Claim C6, amended. If no private key is bound when \<open>build_and_send_tx\<close> is invoked,
  every attempt fails with \<open>No private key specified\<close> before any call of the chain or
  the platform, and that error is the one that reaches the caller. The error is a plain
  \<open>Exception\<close> raised inside the function that the retry policy wraps, so the policy
  treats it as it treats \<open>Tx simulation failed\<close>: it is attempted once if plain
  \<open>Exception\<close> is designated do-not-retry, and as often as the policy allows otherwise.
\<close>

theorem no_private_key_fails:
  assumes "private_key a = None"
  shows "build_and_send_tx_attempt S func a = (Inl (Exception ''No private key specified''), a) \<and>
         build_and_send_tx P S func a =
           (Inl (Exception ''No private key specified''),
            a\<lparr>actions := actions a @
               failure_actions P (max_attempts P - 1) (Exception ''No private key specified'')\<rparr>) \<and>
         attempts_made (failure_actions P (max_attempts P - 1) (Exception ''No private key specified'')) =
           (if do_not_retry P (Exception ''No private key specified'') then 1
            else max 1 (max_attempts P)) \<and>
         do_not_retry P (Exception ''No private key specified'') =
           do_not_retry P (Exception (''Tx simulation failed: '' @ m))"
proof -
  have "max 1 (max_attempts P) = Suc (max_attempts P - 1)"
    by simp
  then show ?thesis
    using assms
    by (simp add: attempt_without_key build_and_send_tx_def async_retry_def
        retry_loop_without_key attempts_made_failure_actions do_not_retry_def del: retry_loop.simps)
qed

theorem no_private_key_fails_witness:
  "private_key \<lparr>address = ''0xa'', profile = \<lparr>linkedAddress = Inr (Some ''0xa''), account_fields = None\<rparr>, private_key = None,
        chain = (), actions = []\<rparr> = None \<and>
   build_and_send_tx \<lparr>max_attempts = 3, do_not_retry_classes = [''Exception'']\<rparr>
     \<lparr>get_transaction_count = (\<lambda>addr w. (Inr 7, w)),
        build_transaction = (\<lambda>f addr n p w. (Inr \<lparr>tx_call = f, tx_from = addr, tx_nonce = n, tx_gas_price = p, tx_gas = None\<rparr>, w)),
        estimate_gas = (\<lambda>t w. (Inl (Exception ''execution reverted''), w)),
        sign_transaction = (\<lambda>t key. Inr ''raw''),
        send_raw_transaction = (\<lambda>raw w. (Inr ''0xh'', w)),
        get_transaction_receipt = (\<lambda>h w. (Inr None, w)),
        generate_codes = (\<lambda>w. (Inr (), w)),
        me = (\<lambda>w. (Inr \<lparr>linkedAddress = Inr (Some ''0xa''), account_fields = None\<rparr>, w)),
        received_lines = (\<lambda>r. receipt_logs r)\<rparr>
     ''rankupQuestAmount''
     \<lparr>address = ''0xa'', profile = \<lparr>linkedAddress = Inr (Some ''0xa''), account_fields = None\<rparr>, private_key = None,
        chain = (), actions = []\<rparr> =
   (Inl (Exception ''No private key specified''),
    \<lparr>address = ''0xa'', profile = \<lparr>linkedAddress = Inr (Some ''0xa''), account_fields = None\<rparr>, private_key = None,
        chain = (), actions = [Log_retry_warning (Exception ''No private key specified'')]\<rparr>)"
proof -
  let ?a = "\<lparr>address = ''0xa'', profile = \<lparr>linkedAddress = Inr (Some ''0xa''), account_fields = None\<rparr>, private_key = None,
        chain = (), actions = []\<rparr>"
  have h: "private_key ?a = None" by simp
  let ?S = "\<lparr>get_transaction_count = (\<lambda>addr w. (Inr 7, w)),
        build_transaction = (\<lambda>f addr n p w. (Inr \<lparr>tx_call = f, tx_from = addr, tx_nonce = n, tx_gas_price = p, tx_gas = None\<rparr>, w)),
        estimate_gas = (\<lambda>t w. (Inl (Exception ''execution reverted''), w)),
        sign_transaction = (\<lambda>t key. Inr ''raw''),
        send_raw_transaction = (\<lambda>raw w. (Inr ''0xh'', w)),
        get_transaction_receipt = (\<lambda>h w. (Inr None, w)),
        generate_codes = (\<lambda>w. (Inr (), w)),
        me = (\<lambda>w. (Inr \<lparr>linkedAddress = Inr (Some ''0xa''), account_fields = None\<rparr>, w)),
        received_lines = (\<lambda>r. receipt_logs r)\<rparr>"
  from no_private_key_fails [OF h, where P = "\<lparr>max_attempts = 3, do_not_retry_classes = [''Exception'']\<rparr>"
      and S = ?S and func = "''rankupQuestAmount''"] h
  show ?thesis
    by (simp add: do_not_retry_def numeral_3_eq_3)
qed

section \<open>Properties: Persistent Store: \<open>Storage\<close> (storage.py)\<close>

subsection \<open>Allocation and copies\<close>

lemma alloc_info_new:
  assumes "alloc_info v h = (r', h')"
  shows "info_value h' r' = v" and "valid_info h' r'"
  using assms by (auto simp: alloc_info_def info_value_def valid_info_def)

lemma alloc_info_old:
  assumes "alloc_info v h = (r', h')" and "valid_info h r"
  shows "info_value h' r = info_value h r" and "valid_info h' r"
    and "locations h' r = locations h r" and "locations h' r \<inter> locations h' r' = {}"
  using assms
  by (auto simp: alloc_info_def info_value_def valid_info_def locations_def nth_append)

lemma alloc_info_store:
  assumes "alloc_info v h = (r', h')" and "store_wf st h"
  shows "store_wf st h'" and "store_view st h' = store_view st h"
    and "footprint st h' = footprint st h" and "locations h' r' \<inter> footprint st h' = {}"
proof -
  have valid: "valid_info h r" if "r \<in> snd ` set (data st)" for r
    using assms(2) that by (auto simp: store_wf_def)
  show "store_wf st h'"
    using assms(2) alloc_info_old(2) [OF assms(1) valid] by (simp add: store_wf_def)
  show "store_view st h' = store_view st h"
  proof
    fix addr
    show "store_view st h' addr = store_view st h addr"
    proof (cases "map_of (data st) addr")
      case None
      then show ?thesis by (simp add: store_view_def)
    next
      case (Some r)
      then have "r \<in> snd ` set (data st)"
        by (force dest: map_of_SomeD)
      from alloc_info_old(1) [OF assms(1) valid [OF this]] Some show ?thesis
        by (simp add: store_view_def)
    qed
  qed
  show "footprint st h' = footprint st h"
    using alloc_info_old(3) [OF assms(1) valid] by (simp add: footprint_def)
  show "locations h' r' \<inter> footprint st h' = {}"
    using alloc_info_old(4) [OF assms(1) valid] by (auto simp: footprint_def)
qed

lemma set_update_subset: "set (AList.update k v al) \<subseteq> insert (k, v) (set al)"
  by (induction al) auto

subsection \<open>Mutations outside the store\<close>

lemma mutate_outside:
  assumes "target m \<notin> locations h r"
  shows "info_value (mutate m h) r = info_value h r"
    and "locations (mutate m h) r = locations h r"
    and "valid_info h r \<Longrightarrow> valid_info (mutate m h) r"
  using assms
  by (cases m; auto simp: info_value_def locations_def valid_info_def)+

lemma mutate_frame:
  assumes "target m \<notin> footprint st h" and "store_wf st h"
  shows "store_wf st (mutate m h)" and "footprint st (mutate m h) = footprint st h"
    and "store_view st (mutate m h) = store_view st h"
proof -
  have out: "target m \<notin> locations h r" if "r \<in> snd ` set (data st)" for r
    using assms(1) that by (auto simp: footprint_def)
  show "store_wf st (mutate m h)"
    using assms(2) mutate_outside(3) [OF out] by (simp add: store_wf_def)
  show "footprint st (mutate m h) = footprint st h"
    using mutate_outside(2) [OF out] by (simp add: footprint_def)
  show "store_view st (mutate m h) = store_view st h"
  proof
    fix addr
    show "store_view st (mutate m h) addr = store_view st h addr"
    proof (cases "map_of (data st) addr")
      case None
      then show ?thesis by (simp add: store_view_def)
    next
      case (Some r)
      then have "r \<in> snd ` set (data st)"
        by (force dest: map_of_SomeD)
      from mutate_outside(1) [OF out [OF this]] Some show ?thesis
        by (simp add: store_view_def)
    qed
  qed
qed

subsection \<open>The accessors\<close>

lemma get_final_account_info_copy:
  assumes "store_wf st h" and "get_final_account_info st addr h = (res, h')"
  shows "store_wf st h' \<and> store_view st h' = store_view st h \<and>
         footprint st h' = footprint st h \<and>
         map_option (info_value h') res = store_view st h addr \<and>
         (\<forall>copy. res = Some copy \<longrightarrow>
            valid_info h' copy \<and> locations h' copy \<inter> footprint st h' = {})"
proof (cases "map_of (data st) addr")
  case None
  with assms show ?thesis
    by (auto simp: get_final_account_info_def store_view_def)
next
  case (Some r)
  obtain c hc where a: "alloc_info (info_value h r) h = (c, hc)"
    by (cases "alloc_info (info_value h r) h")
  with Some assms(2) have res: "res = Some c" and h': "h' = hc"
    by (simp_all add: get_final_account_info_def deepcopy_def)
  from alloc_info_store [OF a assms(1)] alloc_info_new [OF a] Some res h'
  show ?thesis
    by (auto simp: store_view_def)
qed

lemma set_final_account_info_copy:
  assumes "store_wf st h" and "valid_info h info"
    and "set_final_account_info st addr info h = (st', h')"
  shows "store_wf st' h' \<and>
         store_view st' h' = (store_view st h)(addr \<mapsto> info_value h info) \<and>
         (locations h info \<inter> footprint st h = {} \<longrightarrow>
            locations h' info \<inter> footprint st' h' = {})"
proof -
  obtain c where a: "alloc_info (info_value h info) h = (c, h')"
    and st': "st' = st\<lparr>data := AList.update addr c (data st)\<rparr>"
    using assms(3)
    by (cases "alloc_info (info_value h info) h")
      (auto simp: set_final_account_info_def deepcopy_def)
  note store = alloc_info_store [OF a assms(1)]
  note new = alloc_info_new [OF a]
  note old = alloc_info_old [OF a assms(2)]
  have refs: "snd ` set (data st') \<subseteq> insert c (snd ` set (data st))"
    using set_update_subset [of addr c "data st"] by (auto simp: st')
  have "valid_info h' r" if "r \<in> snd ` set (data st')" for r
  proof (cases "r = c")
    case True
    with new(2) show ?thesis by simp
  next
    case False
    with that refs have "r \<in> snd ` set (data st)" by blast
    with store(1) show ?thesis by (auto simp: store_wf_def)
  qed
  moreover have "distinct (map fst (data st'))"
    using assms(1) by (simp add: store_wf_def st' distinct_update)
  ultimately have wf: "store_wf st' h'"
    by (auto simp: store_wf_def)
  have view: "store_view st' h' = (store_view st h)(addr \<mapsto> info_value h info)"
  proof
    fix b
    show "store_view st' h' b = ((store_view st h)(addr \<mapsto> info_value h info)) b"
      using store(2) new(1)
      by (auto simp: store_view_def st' update_conv' dest: fun_cong [of _ _ b])
  qed
  have sep: "locations h' info \<inter> footprint st' h' = {}"
    if "locations h info \<inter> footprint st h = {}"
  proof -
    have "footprint st' h' \<subseteq> locations h' c \<union> footprint st h'"
      unfolding footprint_def using refs by blast
    moreover have "locations h' info \<inter> locations h' c = {}"
      by (rule old(4))
    moreover have "locations h' info \<inter> footprint st h' = {}"
      using that old(3) store(3) by simp
    ultimately show ?thesis by blast
  qed
  from wf view sep show ?thesis by blast
qed

subsection \<open>Clients of the store\<close>

lemma alloc_info_keeps_private:
  assumes "alloc_info v h = (r', h')" and "store_wf st h"
    and "valid_info h r" and "locations h r \<inter> footprint st h = {}"
  shows "valid_info h' r \<and> locations h' r \<inter> footprint st h' = {}"
  using alloc_info_old [OF assms(1,3)] alloc_info_store(3) [OF assms(1,2)] assms(4)
  by simp

lemma client_step_new_inv:
  assumes "client_inv c"
  shows "client_inv (client_step (Op_new v) c)"
proof -
  obtain r h' where a: "alloc_info v (client_heap c) = (r, h')"
    by (cases "alloc_info v (client_heap c)")
  from assms have wf: "store_wf (client_store c) (client_heap c)"
    by (simp add: client_inv_def)
  note store = alloc_info_store [OF a wf]
  note new = alloc_info_new [OF a]
  have "valid_info h' q \<and> locations h' q \<inter> footprint (client_store c) h' = {}"
    if "q \<in> set (held c)" for q
    using alloc_info_keeps_private [OF a wf] assms that by (simp add: client_inv_def)
  with store new a show ?thesis
    by (auto simp: client_inv_def)
qed

lemma client_step_get_inv:
  assumes "client_inv c"
  shows "client_inv (client_step (Op_get addr) c)"
proof -
  from assms have wf: "store_wf (client_store c) (client_heap c)"
    by (simp add: client_inv_def)
  obtain res h' where g: "get_final_account_info (client_store c) addr (client_heap c) = (res, h')"
    by (cases "get_final_account_info (client_store c) addr (client_heap c)")
  note copy = get_final_account_info_copy [OF wf g]
  have old: "valid_info h' q \<and> locations h' q \<inter> footprint (client_store c) h' = {}"
    if "q \<in> set (held c)" for q
  proof (cases "map_of (data (client_store c)) addr")
    case None
    with g have "h' = client_heap c"
      by (simp add: get_final_account_info_def)
    with assms that show ?thesis by (simp add: client_inv_def)
  next
    case (Some r)
    obtain k hk where a: "alloc_info (info_value (client_heap c) r) (client_heap c) = (k, hk)"
      by (cases "alloc_info (info_value (client_heap c) r) (client_heap c)")
    with Some g have "h' = hk"
      by (simp add: get_final_account_info_def deepcopy_def)
    with alloc_info_keeps_private [OF a wf] assms that show ?thesis
      by (simp add: client_inv_def)
  qed
  show ?thesis
  proof (cases res)
    case None
    with g copy old show ?thesis by (auto simp: client_inv_def)
  next
    case (Some k)
    with g copy old show ?thesis by (auto simp: client_inv_def)
  qed
qed

lemma set_final_account_info_keeps_private:
  assumes "store_wf st h" and "valid_info h info"
    and "set_final_account_info st addr info h = (st', h')"
    and "valid_info h r" and "locations h r \<inter> footprint st h = {}"
  shows "valid_info h' r \<and> locations h' r \<inter> footprint st' h' = {}"
proof -
  obtain k where a: "alloc_info (info_value h info) h = (k, h')"
    and st': "st' = st\<lparr>data := AList.update addr k (data st)\<rparr>"
    using assms(3)
    by (cases "alloc_info (info_value h info) h")
      (auto simp: set_final_account_info_def deepcopy_def)
  note store = alloc_info_store [OF a assms(1)]
  note old = alloc_info_old [OF a assms(4)]
  have refs: "snd ` set (data st') \<subseteq> insert k (snd ` set (data st))"
    using set_update_subset [of addr k "data st"] by (auto simp: st')
  have "footprint st' h' \<subseteq> locations h' k \<union> footprint st h'"
    unfolding footprint_def using refs by blast
  moreover have "locations h' r \<inter> locations h' k = {}"
    by (rule old(4))
  moreover have "locations h' r \<inter> footprint st h' = {}"
    using assms(5) old(3) store(3) by simp
  ultimately have "locations h' r \<inter> footprint st' h' = {}" by blast
  with old(2) show ?thesis by simp
qed

lemma client_step_set_inv:
  assumes "client_inv c"
  shows "client_inv (client_step (Op_set addr i) c)"
proof (cases "i < length (held c)")
  case False
  with assms show ?thesis by simp
next
  case True
  let ?info = "held c ! i"
  from assms have wf: "store_wf (client_store c) (client_heap c)"
    by (simp add: client_inv_def)
  from assms True have valid: "valid_info (client_heap c) ?info"
    by (simp add: client_inv_def)
  obtain st' h' where s: "set_final_account_info (client_store c) addr ?info (client_heap c) = (st', h')"
    by (cases "set_final_account_info (client_store c) addr ?info (client_heap c)")
  from set_final_account_info_copy [OF wf valid s] have wf': "store_wf st' h'"
    by simp
  have "valid_info h' q \<and> locations h' q \<inter> footprint st' h' = {}"
    if "q \<in> set (held c)" for q
    using set_final_account_info_keeps_private [OF wf valid s] assms that
    by (simp add: client_inv_def)
  with wf' True s show ?thesis
    by (simp add: client_inv_def)
qed

lemma client_locations_private:
  assumes "client_inv c"
  shows "client_locations c \<inter> footprint (client_store c) (client_heap c) = {}"
  using assms by (auto simp: client_inv_def client_locations_def)

lemma client_locations_valid:
  assumes "client_inv c"
  shows "List_at k \<in> client_locations c \<Longrightarrow> k < length (list_objects (client_heap c))"
    and "Dict_at k \<in> client_locations c \<Longrightarrow> k < length (dict_objects (client_heap c))"
    and "Info_at k \<in> client_locations c \<Longrightarrow> k \<in> set (held c)"
  using assms
  by (auto simp: client_inv_def client_locations_def locations_def valid_info_def)

lemma can_mutate_target: "can_mutate c m \<Longrightarrow> target m \<in> client_locations c"
  by (cases m) simp_all

lemma client_step_mutate_inv:
  assumes "client_inv c"
  shows "client_inv (client_step (Op_mutate m) c)"
proof (cases "can_mutate c m")
  case False
  with assms show ?thesis by simp
next
  case True
  let ?h = "client_heap c" and ?st = "client_store c"
  from assms have wf: "store_wf ?st ?h"
    by (simp add: client_inv_def)
  from can_mutate_target [OF True] client_locations_private [OF assms]
  have out: "target m \<notin> footprint ?st ?h" by blast
  note frame = mutate_frame [OF out wf]
  have "valid_info (mutate m ?h) q \<and> locations (mutate m ?h) q \<subseteq> client_locations c"
    if q: "q \<in> set (held c)" for q
  proof -
    from assms q have v: "valid_info ?h q"
      by (simp add: client_inv_def)
    from q have sub: "locations ?h q \<subseteq> client_locations c"
      by (auto simp: client_locations_def)
    show ?thesis
    proof (cases m)
      case (Set_attributes r obj)
      with True have l: "List_at (invite_codes_at obj) \<in> client_locations c"
        and d: "Dict_at (insights_at obj) \<in> client_locations c"
        by simp_all
      from client_locations_valid(1) [OF assms l] client_locations_valid(2) [OF assms d]
        v sub l d Set_attributes
      show ?thesis
        by (cases "q = r") (auto simp: valid_info_def locations_def)
    next
      case (Set_list r xs)
      with v sub show ?thesis
        by (auto simp: valid_info_def locations_def)
    next
      case (Set_dict r kvs)
      with v sub show ?thesis
        by (auto simp: valid_info_def locations_def)
    qed
  qed
  with client_locations_private [OF assms] frame(2)
  have "valid_info (mutate m ?h) q \<and> locations (mutate m ?h) q \<inter> footprint ?st (mutate m ?h) = {}"
    if "q \<in> set (held c)" for q
    using that by blast
  with frame(1) True show ?thesis
    by (simp add: client_inv_def)
qed

lemma client_step_inv: "client_inv c \<Longrightarrow> client_inv (client_step op c)"
  by (cases op)
    (simp_all only: client_step_new_inv client_step_get_inv client_step_set_inv client_step_mutate_inv)

lemma client_run_inv: "client_inv c \<Longrightarrow> client_inv (client_run ops c)"
  unfolding client_run_def
  by (induction ops arbitrary: c) (simp_all add: client_step_inv)

lemma client_step_view:
  assumes "client_inv c" and "\<not> is_set op"
  shows "client_view (client_step op c) = client_view c"
proof (cases op)
  case (Op_new v)
  obtain r h' where a: "alloc_info v (client_heap c) = (r, h')"
    by (cases "alloc_info v (client_heap c)")
  from assms(1) have wf: "store_wf (client_store c) (client_heap c)"
    by (simp add: client_inv_def)
  from alloc_info_store(2) [OF a wf] a Op_new show ?thesis
    by (simp add: client_view_def)
next
  case (Op_get addr)
  obtain res h' where g: "get_final_account_info (client_store c) addr (client_heap c) = (res, h')"
    by (cases "get_final_account_info (client_store c) addr (client_heap c)")
  from assms(1) have wf: "store_wf (client_store c) (client_heap c)"
    by (simp add: client_inv_def)
  from get_final_account_info_copy [OF wf g] g Op_get show ?thesis
    by (cases res) (simp_all add: client_view_def)
next
  case (Op_set addr i)
  with assms(2) show ?thesis by simp
next
  case (Op_mutate m)
  show ?thesis
  proof (cases "can_mutate c m")
    case False
    with Op_mutate show ?thesis by simp
  next
    case True
    from assms(1) have wf: "store_wf (client_store c) (client_heap c)"
      by (simp add: client_inv_def)
    from can_mutate_target [OF True] client_locations_private [OF assms(1)]
    have "target m \<notin> footprint (client_store c) (client_heap c)" by blast
    from mutate_frame(3) [OF this wf] True Op_mutate show ?thesis
      by (simp add: client_view_def)
  qed
qed

lemma client_run_view:
  assumes "client_inv c" and "\<forall>op \<in> set ops. \<not> is_set op"
  shows "client_view (client_run ops c) = client_view c"
  using assms unfolding client_run_def
proof (induction ops arbitrary: c)
  case Nil
  then show ?case by simp
next
  case (Cons op ops)
  from Cons.prems have "client_inv (client_step op c)"
    by (simp add: client_step_inv)
  from Cons.IH [OF this] Cons.prems show ?case
    by (simp add: client_step_view)
qed

lemma client_step_set_view:
  assumes "client_inv c" and "i < length (held c)"
  shows "client_view (client_step (Op_set addr i) c) =
         (client_view c)(addr \<mapsto> info_value (client_heap c) (held c ! i))"
proof -
  let ?info = "held c ! i"
  from assms have wf: "store_wf (client_store c) (client_heap c)"
    and valid: "valid_info (client_heap c) ?info"
    by (simp_all add: client_inv_def)
  obtain st' h' where s: "set_final_account_info (client_store c) addr ?info (client_heap c) = (st', h')"
    by (cases "set_final_account_info (client_store c) addr ?info (client_heap c)")
  from set_final_account_info_copy [OF wf valid s] s assms(2) show ?thesis
    by (simp add: client_view_def)
qed

text \<open>
  Claim C10. A client starts with a well-formed store and no object, and then builds
  objects, calls the two accessors and mutates what it reaches, in any order and number.
  In every state it gets to: the store is well-formed and shares no object with the
  client; \<open>set_final_account_info(address, info)\<close> changes what the store holds for that
  address to the value of \<open>info\<close> and leaves every other address as it was;
  \<open>get_final_account_info(address)\<close> returns a copy of what the store holds for the
  address (\<open>None\<close> when it holds nothing); and no sequence of operations without a call
  of \<open>set_final_account_info\<close> changes what the store holds for any address, whatever
  it mutates: objects that \<open>get_final_account_info\<close> returned, arguments of earlier
  \<open>set_final_account_info\<close> calls, or any other object of the client.
\<close>

theorem storage_accessors_copy:
  assumes "store_wf st h"
    and "c = client_run ops \<lparr>client_store = st, client_heap = h, held = []\<rparr>"
  shows "client_inv c \<and>
         (\<forall>addr i. i < length (held c) \<longrightarrow>
            client_view (client_step (Op_set addr i) c) =
              (client_view c)(addr \<mapsto> info_value (client_heap c) (held c ! i))) \<and>
         (\<forall>addr. \<exists>res h'.
            get_final_account_info (client_store c) addr (client_heap c) = (res, h') \<and>
            map_option (info_value h') res = client_view c addr) \<and>
         (\<forall>ops'. (\<forall>op \<in> set ops'. \<not> is_set op) \<longrightarrow>
            client_view (client_run ops' c) = client_view c)"
proof -
  from assms(1) have "client_inv \<lparr>client_store = st, client_heap = h, held = []\<rparr>"
    by (simp add: client_inv_def)
  with assms(2) have inv: "client_inv c"
    by (simp add: client_run_inv)
  then have wf: "store_wf (client_store c) (client_heap c)"
    by (simp add: client_inv_def)
  have "\<exists>res h'. get_final_account_info (client_store c) addr (client_heap c) = (res, h') \<and>
      map_option (info_value h') res = client_view c addr" for addr
  proof -
    obtain res h' where g: "get_final_account_info (client_store c) addr (client_heap c) = (res, h')"
      by (cases "get_final_account_info (client_store c) addr (client_heap c)")
    from get_final_account_info_copy [OF wf g] g show ?thesis
      by (simp add: client_view_def)
  qed
  then have get: "\<forall>addr. \<exists>res h'.
      get_final_account_info (client_store c) addr (client_heap c) = (res, h') \<and>
      map_option (info_value h') res = client_view c addr"
    by blast
  from inv have set: "\<forall>addr i. i < length (held c) \<longrightarrow>
      client_view (client_step (Op_set addr i) c) =
        (client_view c)(addr \<mapsto> info_value (client_heap c) (held c ! i))"
    by (simp add: client_step_set_view del: client_step.simps)
  from inv have frame: "\<forall>ops'. (\<forall>op \<in> set ops'. \<not> is_set op) \<longrightarrow>
      client_view (client_run ops' c) = client_view c"
    by (simp add: client_run_view)
  from inv set get frame show ?thesis
    by (intro conjI)
qed

theorem storage_accessors_copy_witness:
  "store_wf new_storage (\<lparr>info_objects = [], list_objects = [], dict_objects = []\<rparr> :: string heap) \<and>
   client_run
     [Op_new \<lparr>scalars = ''proxy'', invite_codes = [''A''], insights = [(''rare'', 1)]\<rparr>,
      Op_set ''0xa'' 0]
     \<lparr>client_store = new_storage,
        client_heap = \<lparr>info_objects = [], list_objects = [], dict_objects = []\<rparr>, held = []\<rparr> =
   \<lparr>client_store = \<lparr>data = [(''0xa'', 1)]\<rparr>,
      client_heap =
        \<lparr>info_objects = [\<lparr>attributes = ''proxy'', invite_codes_at = 0, insights_at = 0\<rparr>,
                         \<lparr>attributes = ''proxy'', invite_codes_at = 1, insights_at = 1\<rparr>],
           list_objects = [[''A''], [''A'']],
           dict_objects = [[(''rare'', 1)], [(''rare'', 1)]]\<rparr>,
      held = [0]\<rparr> \<and>
   client_run
     [Op_mutate (Set_list 0 [''B'']), Op_get ''0xa'', Op_mutate (Set_dict 2 [])]
     \<lparr>client_store = \<lparr>data = [(''0xa'', 1)]\<rparr>,
        client_heap =
          \<lparr>info_objects = [\<lparr>attributes = ''proxy'', invite_codes_at = 0, insights_at = 0\<rparr>,
                           \<lparr>attributes = ''proxy'', invite_codes_at = 1, insights_at = 1\<rparr>],
             list_objects = [[''A''], [''A'']],
             dict_objects = [[(''rare'', 1)], [(''rare'', 1)]]\<rparr>,
        held = [0]\<rparr> =
   \<lparr>client_store = \<lparr>data = [(''0xa'', 1)]\<rparr>,
      client_heap =
        \<lparr>info_objects = [\<lparr>attributes = ''proxy'', invite_codes_at = 0, insights_at = 0\<rparr>,
                         \<lparr>attributes = ''proxy'', invite_codes_at = 1, insights_at = 1\<rparr>,
                         \<lparr>attributes = ''proxy'', invite_codes_at = 2, insights_at = 2\<rparr>],
           list_objects = [[''B''], [''A''], [''A'']],
           dict_objects = [[(''rare'', 1)], [(''rare'', 1)], []]\<rparr>,
      held = [0, 2]\<rparr> \<and>
   client_view
     \<lparr>client_store = \<lparr>data = [(''0xa'', 1)]\<rparr>,
        client_heap =
          \<lparr>info_objects = [\<lparr>attributes = ''proxy'', invite_codes_at = 0, insights_at = 0\<rparr>,
                           \<lparr>attributes = ''proxy'', invite_codes_at = 1, insights_at = 1\<rparr>,
                           \<lparr>attributes = ''proxy'', invite_codes_at = 2, insights_at = 2\<rparr>],
             list_objects = [[''B''], [''A''], [''A'']],
             dict_objects = [[(''rare'', 1)], [(''rare'', 1)], []]\<rparr>,
        held = [0, 2]\<rparr> ''0xa'' =
   Some \<lparr>scalars = ''proxy'', invite_codes = [''A''], insights = [(''rare'', 1)]\<rparr>"
proof -
  let ?empty = "\<lparr>info_objects = [], list_objects = [], dict_objects = []\<rparr> :: string heap"
  let ?start = "\<lparr>client_store = new_storage, client_heap = ?empty, held = []\<rparr>"
  let ?ops = "[Op_new \<lparr>scalars = ''proxy'', invite_codes = [''A''], insights = [(''rare'', 1)]\<rparr>,
      Op_set ''0xa'' 0] :: string client_op list"
  let ?c = "\<lparr>client_store = \<lparr>data = [(''0xa'', 1)]\<rparr>,
      client_heap =
        \<lparr>info_objects = [\<lparr>attributes = ''proxy'', invite_codes_at = 0, insights_at = 0\<rparr>,
                         \<lparr>attributes = ''proxy'', invite_codes_at = 1, insights_at = 1\<rparr>],
           list_objects = [[''A''], [''A'']],
           dict_objects = [[(''rare'', 1)], [(''rare'', 1)]]\<rparr>,
      held = [0]\<rparr>"
  let ?later = "[Op_mutate (Set_list 0 [''B'']), Op_get ''0xa'', Op_mutate (Set_dict 2 [])] :: string client_op list"
  let ?d = "\<lparr>client_store = \<lparr>data = [(''0xa'', 1)]\<rparr>,
      client_heap =
        \<lparr>info_objects = [\<lparr>attributes = ''proxy'', invite_codes_at = 0, insights_at = 0\<rparr>,
                         \<lparr>attributes = ''proxy'', invite_codes_at = 1, insights_at = 1\<rparr>,
                         \<lparr>attributes = ''proxy'', invite_codes_at = 2, insights_at = 2\<rparr>],
           list_objects = [[''B''], [''A''], [''A'']],
           dict_objects = [[(''rare'', 1)], [(''rare'', 1)], []]\<rparr>,
      held = [0, 2]\<rparr>"
  have wf: "store_wf new_storage ?empty"
    by (simp add: store_wf_def new_storage_def)
  have run: "client_run ?ops ?start = ?c"
    by (simp add: client_run_def alloc_info_def set_final_account_info_def deepcopy_def
        info_value_def new_storage_def)
  have later: "client_run ?later ?c = ?d"
    by (simp add: client_run_def alloc_info_def get_final_account_info_def deepcopy_def
        info_value_def client_locations_def locations_def)
  have no_set: "\<forall>op \<in> set ?later. \<not> is_set op"
    by simp
  note inst = storage_accessors_copy [OF wf run [symmetric]]
  from inst no_set have "client_view (client_run ?later ?c) = client_view ?c"
    by blast
  with later have same: "client_view ?d = client_view ?c"
    by simp
  have "client_view ?c ''0xa'' =
      Some \<lparr>scalars = ''proxy'', invite_codes = [''A''], insights = [(''rare'', 1)]\<rparr>"
    by (simp add: client_view_def store_view_def info_value_def)
  with same have kept: "client_view ?d ''0xa'' =
      Some \<lparr>scalars = ''proxy'', invite_codes = [''A''], insights = [(''rare'', 1)]\<rparr>"
    by (simp only:)
  show ?thesis
    by (intro conjI; (rule wf | rule run | rule later | rule kept))
qed

subsection \<open>Saving and loading\<close>

lemma update_new_key:
  "k \<notin> fst ` set al \<Longrightarrow> AList.update k v al = al @ [(k, v)]"
  by (induction al) auto

lemma fold_update_distinct:
  assumes "distinct (map fst xs)" and "fst ` set xs \<inter> fst ` set acc = {}"
  shows "fold (\<lambda>(k, v). AList.update k v) xs acc = acc @ xs"
  using assms
proof (induction xs arbitrary: acc)
  case Nil
  then show ?case by simp
next
  case (Cons x xs)
  obtain k v where x: "x = (k, v)" by (cases x)
  from Cons.prems x have new: "k \<notin> fst ` set acc" by auto
  have "fst ` set xs \<inter> fst ` set (acc @ [(k, v)]) = {}"
    using Cons.prems x by auto
  moreover have "distinct (map fst xs)"
    using Cons.prems by simp
  ultimately have "fold (\<lambda>(k, v). AList.update k v) xs (acc @ [(k, v)]) = (acc @ [(k, v)]) @ xs"
    by (rule Cons.IH [rotated])
  with new x show ?case
    by (simp add: update_new_key)
qed

lemma json_load_object_distinct:
  "distinct (map fst xs) \<Longrightarrow> json_load_object xs = xs"
  using fold_update_distinct [of xs "[]"] by (simp add: json_load_object_def)

lemma as_strs_strings: "as_strs (map JString xs) = Inr xs"
  by (induction xs) simp_all

lemma as_counts_counts: "as_counts (map (\<lambda>(k, n). (k, JInt n)) kvs) = Inr kvs"
  by (induction kvs) auto

lemma from_dict_to_dict: "from_dict (to_dict v) = Inr v"
  by (simp add: to_dict_def from_members_def member_def and_then_def as_strs_strings
      as_counts_counts)

lemma python_value_strings: "python_value \<circ> JString = JString"
  by (simp add: fun_eq_iff)

lemma python_value_counts:
  "(\<lambda>(k, v). (k, python_value v)) \<circ> (\<lambda>(k, n). (k, JInt n)) = (\<lambda>(k, n). (k, JInt n))"
  by (simp add: fun_eq_iff)

lemma python_value_to_dict:
  assumes "info_wf v"
  shows "python_value (to_dict v) = to_dict v"
proof -
  have "distinct (map fst (map (\<lambda>(k, n). (k, JInt n)) (insights v)))"
    using assms by (simp add: info_wf_def comp_def case_prod_beta)
  then have "json_load_object (map (\<lambda>(k, n). (k, JInt n)) (insights v)) =
      map (\<lambda>(k, n). (k, JInt n)) (insights v)"
    by (rule json_load_object_distinct)
  with assms show ?thesis
    by (simp add: to_dict_def info_wf_def python_value_strings python_value_counts
        json_load_object_distinct)
qed

lemma load_entries_saved:
  assumes "distinct (map fst xs)" and "fst ` set xs \<inter> fst ` set acc = {}"
    and "\<forall>r \<in> snd ` set acc. valid_info hb r"
  shows "\<exists>entries h'.
           load_entries (map (\<lambda>(a, i). (a, to_dict (info_value h i))) xs) acc hb =
             Inr (entries, h') \<and>
           map fst entries = map fst acc @ map fst xs \<and>
           (\<forall>r \<in> snd ` set entries. valid_info h' r) \<and>
           (\<forall>b. map_option (info_value h') (map_of entries b) =
              (case map_of xs b of
                 Some r \<Rightarrow> Some (info_value h r)
               | None \<Rightarrow> map_option (info_value hb) (map_of acc b)))"
  using assms
proof (induction xs arbitrary: acc hb)
  case Nil
  then show ?case by simp
next
  case (Cons x xs)
  obtain a r where x: "x = (a, r)" by (cases x)
  let ?v = "info_value h r"
  obtain c hc where al: "alloc_info ?v hb = (c, hc)"
    by (cases "alloc_info ?v hb")
  let ?acc = "acc @ [(a, c)]"
  from Cons.prems(2) x have new: "a \<notin> fst ` set acc" by auto
  then have upd: "AList.update a c acc = ?acc"
    by (rule update_new_key)
  have codec: "from_dict (to_dict ?v) = Inr ?v"
    by (rule from_dict_to_dict)
  have step: "load_entries (map (\<lambda>(a, i). (a, to_dict (info_value h i))) (x # xs)) acc hb =
      load_entries (map (\<lambda>(a, i). (a, to_dict (info_value h i))) xs) ?acc hc"
    by (simp add: x codec al upd)
  have d: "distinct (map fst xs)" and a_rest: "a \<notin> fst ` set xs"
    using Cons.prems(1) x by auto
  have disj: "fst ` set xs \<inter> fst ` set ?acc = {}"
    using Cons.prems(2) a_rest by auto
  have old_valid: "valid_info hb q" if "q \<in> snd ` set acc" for q
    using Cons.prems(3) that by blast
  have valid': "\<forall>q \<in> snd ` set ?acc. valid_info hc q"
    using alloc_info_new(2) [OF al] alloc_info_old(2) [OF al old_valid] by auto
  from Cons.IH [OF d disj valid']
  obtain entries h' where
    run: "load_entries (map (\<lambda>(a, i). (a, to_dict (info_value h i))) xs) ?acc hc = Inr (entries, h')"
    and keys: "map fst entries = map fst ?acc @ map fst xs"
    and valid: "\<forall>q \<in> snd ` set entries. valid_info h' q"
    and view: "\<forall>b. map_option (info_value h') (map_of entries b) =
        (case map_of xs b of
           Some r \<Rightarrow> Some (info_value h r)
         | None \<Rightarrow> map_option (info_value hc) (map_of ?acc b))"
    by blast
  have lookup: "map_of ?acc b = (if b = a then Some c else map_of acc b)" for b
  proof (cases "map_of acc b")
    case None
    then show ?thesis by (simp add: map_add_def)
  next
    case (Some q)
    then have "b \<in> fst ` set acc"
      by (force dest: map_of_SomeD)
    with new have "b \<noteq> a" by blast
    with Some show ?thesis by (simp add: map_add_def)
  qed
  have "map_option (info_value h') (map_of entries b) =
      (case map_of (x # xs) b of
         Some r \<Rightarrow> Some (info_value h r)
       | None \<Rightarrow> map_option (info_value hb) (map_of acc b))" for b
  proof (cases "map_of xs b")
    case (Some q)
    then have "b \<in> fst ` set xs"
      by (force dest: map_of_SomeD)
    with a_rest have "b \<noteq> a" by blast
    with Some view x show ?thesis by simp
  next
    case None
    show ?thesis
    proof (cases "b = a")
      case True
      with new have "map_of acc a = None"
        by (simp add: map_of_eq_None_iff)
      with True None view x alloc_info_new(1) [OF al] show ?thesis
        by (simp add: lookup del: map_of_append)
    next
      case False
      have "map_option (info_value hc) (map_of acc b) = map_option (info_value hb) (map_of acc b)"
      proof (cases "map_of acc b")
        case None
        then show ?thesis by simp
      next
        case (Some q)
        then have "q \<in> snd ` set acc"
          by (force dest: map_of_SomeD)
        from alloc_info_old(1) [OF al old_valid [OF this]] Some show ?thesis by simp
      qed
      with False None view x show ?thesis
        by (simp add: lookup del: map_of_append)
    qed
  qed
  with step run keys valid x show ?case
    by simp
qed

lemma python_value_saved:
  assumes "distinct (map fst xs)"
    and "\<forall>r \<in> snd ` set xs. info_wf (info_value h r)"
  shows "python_value (JObject (map (\<lambda>(a, i). (a, to_dict (info_value h i))) xs)) =
         JObject (map (\<lambda>(a, i). (a, to_dict (info_value h i))) xs)"
proof -
  let ?saved = "map (\<lambda>(a, i). (a, to_dict (info_value h i))) xs"
  have m: "map (\<lambda>(k, v). (k, python_value v)) ?saved = ?saved"
    using assms(2)
    by (induction xs) (auto simp: python_value_to_dict simp del: python_value.simps)
  have "map fst ?saved = map fst xs"
    by (simp add: comp_def case_prod_beta)
  with assms(1) have "distinct (map fst ?saved)" by metis
  then have l: "json_load_object ?saved = ?saved"
    by (rule json_load_object_distinct)
  show ?thesis
    by (simp only: python_value.simps m l)
qed

lemma init_saved_entries:
  assumes "distinct (map fst xs)"
    and "\<forall>r \<in> snd ` set xs. info_wf (info_value h r)"
  shows "\<exists>st' h'.
           init filename (Json_text (JObject (map (\<lambda>(a, i). (a, to_dict (info_value h i))) xs)))
             new_storage hb = Inr (st', h') \<and>
           map fst (data st') = map fst xs \<and>
           store_wf st' h' \<and>
           (\<forall>b. store_view st' h' b = map_option (info_value h) (map_of xs b))"
proof -
  let ?saved = "map (\<lambda>(a, i). (a, to_dict (info_value h i))) xs"
  note load = python_value_saved [OF assms]
  let ?nil = "[] :: (string \<times> ref) list"
  have "\<exists>entries h'.
      load_entries ?saved ?nil hb = Inr (entries, h') \<and>
      map fst entries = map fst ?nil @ map fst xs \<and>
      (\<forall>r \<in> snd ` set entries. valid_info h' r) \<and>
      (\<forall>b. map_option (info_value h') (map_of entries b) =
         (case map_of xs b of
            Some r \<Rightarrow> Some (info_value h r)
          | None \<Rightarrow> map_option (info_value hb) (map_of ?nil b)))"
    by (rule load_entries_saved [where h = h and xs = xs and acc = ?nil and hb = hb])
      (use assms in simp_all)
  then obtain entries h' where
    run: "load_entries ?saved ?nil hb = Inr (entries, h')"
    and keys0: "map fst entries = map fst ?nil @ map fst xs"
    and valid: "\<forall>r \<in> snd ` set entries. valid_info h' r"
    and view0: "\<forall>b. map_option (info_value h') (map_of entries b) =
        (case map_of xs b of
           Some r \<Rightarrow> Some (info_value h r)
         | None \<Rightarrow> map_option (info_value hb) (map_of ?nil b))"
    by blast
  from keys0 have keys: "map fst entries = map fst xs"
    by simp
  from view0 have view: "\<forall>b. map_option (info_value h') (map_of entries b) =
        (case map_of xs b of Some r \<Rightarrow> Some (info_value h r) | None \<Rightarrow> None)"
    by (simp cong: option.case_cong)
  let ?st = "new_storage\<lparr>data := entries\<rparr>"
  have "init filename (Json_text (JObject ?saved)) new_storage hb = Inr (?st, h')"
    by (simp add: init_def load run del: python_value.simps)
  moreover have "store_wf ?st h'"
    using valid keys assms(1) by (simp add: store_wf_def)
  moreover have "\<forall>b. store_view ?st h' b = map_option (info_value h) (map_of xs b)"
    using view by (simp add: store_view_def split: option.splits)
  ultimately show ?thesis
    using keys by (intro exI [of _ ?st] exI [of _ h']) simp
qed

lemma reordered_entries:
  assumes "mset ys = mset xs" and "distinct (map fst xs)"
  shows "distinct (map fst ys) \<and> set ys = set xs \<and> map_of ys = map_of xs"
proof -
  from assms(1) have "mset (map fst ys) = mset (map fst xs)"
    by (metis mset_map)
  with assms(2) have d: "distinct (map fst ys)"
    by (metis mset_eq_imp_distinct_iff)
  from assms(1) have s: "set ys = set xs"
    by (rule mset_eq_setD)
  from d assms(2) s have "map_of ys = map_of xs"
    by (simp add: map_of_inject_set)
  with d s show ?thesis by simp
qed

lemma save_then_init:
  assumes "store_wf st h"
    and "\<forall>r \<in> snd ` set (data st). info_wf (info_value h r)"
    and "mset entries = mset (data st)"
  shows "\<exists>st' h'.
           init filename (Json_text (JObject (map (\<lambda>(a, i). (a, to_dict (info_value h i))) entries)))
             new_storage hb = Inr (st', h') \<and>
           map fst (data st') = map fst entries \<and>
           store_wf st' h' \<and>
           store_view st' h' = store_view st h"
proof -
  have d: "distinct (map fst (data st))"
    using assms(1) by (simp add: store_wf_def)
  from reordered_entries [OF assms(3) d]
  have d': "distinct (map fst entries)" and s: "set entries = set (data st)"
    and m: "map_of entries = map_of (data st)"
    by simp_all
  from assms(2) s
  have wf: "\<forall>r \<in> snd ` set entries. info_wf (info_value h r)"
    by simp
  from init_saved_entries [where h = h and xs = entries and hb = hb and filename = filename,
      OF d' wf]
  obtain st' h' where
    "init filename (Json_text (JObject (map (\<lambda>(a, i). (a, to_dict (info_value h i))) entries)))
       new_storage hb = Inr (st', h')"
    and "map fst (data st') = map fst entries"
    and "store_wf st' h'"
    and "\<forall>b. store_view st' h' b = map_option (info_value h) (map_of entries b)"
    by blast
  moreover from this(4) m have "store_view st' h' = store_view st h"
    by (auto simp: store_view_def)
  ultimately show ?thesis
    by blast
qed

text \<open>
  Claim C9. For every store (well-formed, its dictionaries with one entry for a key, as
  Python keeps them): \<open>save\<close> followed by \<open>init\<close> of a fresh store on the file
  succeeds, and the new store has the same addresses (in the same order), each mapped to
  a record of equal value. The order of the keys in the file does not matter: \<open>init\<close> on
  a file that lists the saved members in any other order succeeds with the same mapping.
\<close>

theorem save_then_init_restores:
  assumes "store_wf st h"
    and "\<forall>r \<in> snd ` set (data st). info_wf (info_value h r)"
  shows "(\<exists>st' h'. init filename (save st h) new_storage hb = Inr (st', h') \<and>
            map fst (data st') = map fst (data st) \<and>
            store_wf st' h' \<and>
            store_view st' h' = store_view st h) \<and>
         (\<forall>entries. mset entries = mset (data st) \<longrightarrow>
            (\<exists>st' h'.
               init filename
                 (Json_text (JObject (map (\<lambda>(a, i). (a, to_dict (info_value h i))) entries)))
                 new_storage hb = Inr (st', h') \<and>
               store_wf st' h' \<and>
               store_view st' h' = store_view st h))"
proof (intro conjI allI impI)
  from save_then_init [OF assms, of "data st" filename hb]
  show "\<exists>st' h'. init filename (save st h) new_storage hb = Inr (st', h') \<and>
      map fst (data st') = map fst (data st) \<and> store_wf st' h' \<and>
      store_view st' h' = store_view st h"
    unfolding save_def by simp
next
  fix entries :: "(string \<times> ref) list"
  assume "mset entries = mset (data st)"
  from save_then_init [OF assms this, of filename hb]
  show "\<exists>st' h'.
      init filename
        (Json_text (JObject (map (\<lambda>(a, i). (a, to_dict (info_value h i))) entries)))
        new_storage hb = Inr (st', h') \<and>
      store_wf st' h' \<and> store_view st' h' = store_view st h"
    by blast
qed

theorem save_then_init_restores_witness:
  "store_wf \<lparr>data = [(''0xa'', 0), (''0xb'', 1)]\<rparr>
     \<lparr>info_objects =
          [\<lparr>attributes = \<lparr>info_address = ''0xa'', info_proxy = ''http://p1'', info_twitter_auth_token = ''t1'',
                info_exp = 120, info_lvl = 3, info_pending_quests = 1,
                info_next_breathe_time = JString ''Completed'', info_daily_insight = ''claimed'',
                info_insights_to_open = 2\<rparr>,
             invite_codes_at = 0, insights_at = 0\<rparr>,
           \<lparr>attributes = \<lparr>info_address = ''0xb'', info_proxy = ''http://p2'', info_twitter_auth_token = ''t2'',
                info_exp = 0, info_lvl = 0, info_pending_quests = 0,
                info_next_breathe_time = JInt 1700000000, info_daily_insight = ''available'',
                info_insights_to_open = 0\<rparr>,
             invite_codes_at = 1, insights_at = 1\<rparr>],
        list_objects = [[''A'', ''B''], []],
        dict_objects = [[(''rare'', 1), (''uncommon'', 4)], []]\<rparr> \<and>
   info_wf (info_value
     \<lparr>info_objects =
          [\<lparr>attributes = \<lparr>info_address = ''0xa'', info_proxy = ''http://p1'', info_twitter_auth_token = ''t1'',
                info_exp = 120, info_lvl = 3, info_pending_quests = 1,
                info_next_breathe_time = JString ''Completed'', info_daily_insight = ''claimed'',
                info_insights_to_open = 2\<rparr>,
             invite_codes_at = 0, insights_at = 0\<rparr>,
           \<lparr>attributes = \<lparr>info_address = ''0xb'', info_proxy = ''http://p2'', info_twitter_auth_token = ''t2'',
                info_exp = 0, info_lvl = 0, info_pending_quests = 0,
                info_next_breathe_time = JInt 1700000000, info_daily_insight = ''available'',
                info_insights_to_open = 0\<rparr>,
             invite_codes_at = 1, insights_at = 1\<rparr>],
        list_objects = [[''A'', ''B''], []],
        dict_objects = [[(''rare'', 1), (''uncommon'', 4)], []]\<rparr> 0) \<and>
   info_wf (info_value
     \<lparr>info_objects =
          [\<lparr>attributes = \<lparr>info_address = ''0xa'', info_proxy = ''http://p1'', info_twitter_auth_token = ''t1'',
                info_exp = 120, info_lvl = 3, info_pending_quests = 1,
                info_next_breathe_time = JString ''Completed'', info_daily_insight = ''claimed'',
                info_insights_to_open = 2\<rparr>,
             invite_codes_at = 0, insights_at = 0\<rparr>,
           \<lparr>attributes = \<lparr>info_address = ''0xb'', info_proxy = ''http://p2'', info_twitter_auth_token = ''t2'',
                info_exp = 0, info_lvl = 0, info_pending_quests = 0,
                info_next_breathe_time = JInt 1700000000, info_daily_insight = ''available'',
                info_insights_to_open = 0\<rparr>,
             invite_codes_at = 1, insights_at = 1\<rparr>],
        list_objects = [[''A'', ''B''], []],
        dict_objects = [[(''rare'', 1), (''uncommon'', 4)], []]\<rparr> 1) \<and>
   save \<lparr>data = [(''0xa'', 0), (''0xb'', 1)]\<rparr>
     \<lparr>info_objects =
          [\<lparr>attributes = \<lparr>info_address = ''0xa'', info_proxy = ''http://p1'', info_twitter_auth_token = ''t1'',
                info_exp = 120, info_lvl = 3, info_pending_quests = 1,
                info_next_breathe_time = JString ''Completed'', info_daily_insight = ''claimed'',
                info_insights_to_open = 2\<rparr>,
             invite_codes_at = 0, insights_at = 0\<rparr>,
           \<lparr>attributes = \<lparr>info_address = ''0xb'', info_proxy = ''http://p2'', info_twitter_auth_token = ''t2'',
                info_exp = 0, info_lvl = 0, info_pending_quests = 0,
                info_next_breathe_time = JInt 1700000000, info_daily_insight = ''available'',
                info_insights_to_open = 0\<rparr>,
             invite_codes_at = 1, insights_at = 1\<rparr>],
        list_objects = [[''A'', ''B''], []],
        dict_objects = [[(''rare'', 1), (''uncommon'', 4)], []]\<rparr> =
     Json_text (JObject
       [(''0xa'',
         JObject
          [(''address'', JString ''0xa''), (''proxy'', JString ''http://p1''),
           (''twitter_auth_token'', JString ''t1''),
           (''invite_codes'', JArray [JString ''A'', JString ''B'']),
           (''exp'', JInt 120), (''lvl'', JInt 3), (''pending_quests'', JInt 1),
           (''next_breathe_time'', JString ''Completed''),
           (''insights'', JObject [(''rare'', JInt 1), (''uncommon'', JInt 4)]),
           (''daily_insight'', JString ''claimed''), (''insights_to_open'', JInt 2)]),
        (''0xb'',
         JObject
          [(''address'', JString ''0xb''), (''proxy'', JString ''http://p2''),
           (''twitter_auth_token'', JString ''t2''),
           (''invite_codes'', JArray []),
           (''exp'', JInt 0), (''lvl'', JInt 0), (''pending_quests'', JInt 0),
           (''next_breathe_time'', JInt 1700000000),
           (''insights'', JObject []),
           (''daily_insight'', JString ''available''), (''insights_to_open'', JInt 0)])]) \<and>
   init ''storage/data.json''
     (save \<lparr>data = [(''0xa'', 0), (''0xb'', 1)]\<rparr>
        \<lparr>info_objects =
          [\<lparr>attributes = \<lparr>info_address = ''0xa'', info_proxy = ''http://p1'', info_twitter_auth_token = ''t1'',
                info_exp = 120, info_lvl = 3, info_pending_quests = 1,
                info_next_breathe_time = JString ''Completed'', info_daily_insight = ''claimed'',
                info_insights_to_open = 2\<rparr>,
             invite_codes_at = 0, insights_at = 0\<rparr>,
           \<lparr>attributes = \<lparr>info_address = ''0xb'', info_proxy = ''http://p2'', info_twitter_auth_token = ''t2'',
                info_exp = 0, info_lvl = 0, info_pending_quests = 0,
                info_next_breathe_time = JInt 1700000000, info_daily_insight = ''available'',
                info_insights_to_open = 0\<rparr>,
             invite_codes_at = 1, insights_at = 1\<rparr>],
        list_objects = [[''A'', ''B''], []],
        dict_objects = [[(''rare'', 1), (''uncommon'', 4)], []]\<rparr>)
     new_storage (\<lparr>info_objects = [], list_objects = [], dict_objects = []\<rparr> :: account_scalars heap) =
   Inr (\<lparr>data = [(''0xa'', 0), (''0xb'', 1)]\<rparr>,
     \<lparr>info_objects =
          [\<lparr>attributes = \<lparr>info_address = ''0xa'', info_proxy = ''http://p1'', info_twitter_auth_token = ''t1'',
                info_exp = 120, info_lvl = 3, info_pending_quests = 1,
                info_next_breathe_time = JString ''Completed'', info_daily_insight = ''claimed'',
                info_insights_to_open = 2\<rparr>,
             invite_codes_at = 0, insights_at = 0\<rparr>,
           \<lparr>attributes = \<lparr>info_address = ''0xb'', info_proxy = ''http://p2'', info_twitter_auth_token = ''t2'',
                info_exp = 0, info_lvl = 0, info_pending_quests = 0,
                info_next_breathe_time = JInt 1700000000, info_daily_insight = ''available'',
                info_insights_to_open = 0\<rparr>,
             invite_codes_at = 1, insights_at = 1\<rparr>],
        list_objects = [[''A'', ''B''], []],
        dict_objects = [[(''rare'', 1), (''uncommon'', 4)], []]\<rparr>) \<and>
   init ''storage/data.json''
     (Json_text (JObject
       [(''0xb'',
         JObject
          [(''address'', JString ''0xb''), (''proxy'', JString ''http://p2''),
           (''twitter_auth_token'', JString ''t2''),
           (''invite_codes'', JArray []),
           (''exp'', JInt 0), (''lvl'', JInt 0), (''pending_quests'', JInt 0),
           (''next_breathe_time'', JInt 1700000000),
           (''insights'', JObject []),
           (''daily_insight'', JString ''available''), (''insights_to_open'', JInt 0)]),
        (''0xa'',
         JObject
          [(''address'', JString ''0xa''), (''proxy'', JString ''http://p1''),
           (''twitter_auth_token'', JString ''t1''),
           (''invite_codes'', JArray [JString ''A'', JString ''B'']),
           (''exp'', JInt 120), (''lvl'', JInt 3), (''pending_quests'', JInt 1),
           (''next_breathe_time'', JString ''Completed''),
           (''insights'', JObject [(''rare'', JInt 1), (''uncommon'', JInt 4)]),
           (''daily_insight'', JString ''claimed''), (''insights_to_open'', JInt 2)])]))
     new_storage (\<lparr>info_objects = [], list_objects = [], dict_objects = []\<rparr> :: account_scalars heap) =
   Inr (\<lparr>data = [(''0xb'', 0), (''0xa'', 1)]\<rparr>,
     \<lparr>info_objects =
          [\<lparr>attributes = \<lparr>info_address = ''0xb'', info_proxy = ''http://p2'', info_twitter_auth_token = ''t2'',
                info_exp = 0, info_lvl = 0, info_pending_quests = 0,
                info_next_breathe_time = JInt 1700000000, info_daily_insight = ''available'',
                info_insights_to_open = 0\<rparr>,
             invite_codes_at = 0, insights_at = 0\<rparr>,
           \<lparr>attributes = \<lparr>info_address = ''0xa'', info_proxy = ''http://p1'', info_twitter_auth_token = ''t1'',
                info_exp = 120, info_lvl = 3, info_pending_quests = 1,
                info_next_breathe_time = JString ''Completed'', info_daily_insight = ''claimed'',
                info_insights_to_open = 2\<rparr>,
             invite_codes_at = 1, insights_at = 1\<rparr>],
        list_objects = [[], [''A'', ''B'']],
        dict_objects = [[], [(''rare'', 1), (''uncommon'', 4)]]\<rparr>) \<and>
   store_view \<lparr>data = [(''0xb'', 0), (''0xa'', 1)]\<rparr>
     \<lparr>info_objects =
          [\<lparr>attributes = \<lparr>info_address = ''0xb'', info_proxy = ''http://p2'', info_twitter_auth_token = ''t2'',
                info_exp = 0, info_lvl = 0, info_pending_quests = 0,
                info_next_breathe_time = JInt 1700000000, info_daily_insight = ''available'',
                info_insights_to_open = 0\<rparr>,
             invite_codes_at = 0, insights_at = 0\<rparr>,
           \<lparr>attributes = \<lparr>info_address = ''0xa'', info_proxy = ''http://p1'', info_twitter_auth_token = ''t1'',
                info_exp = 120, info_lvl = 3, info_pending_quests = 1,
                info_next_breathe_time = JString ''Completed'', info_daily_insight = ''claimed'',
                info_insights_to_open = 2\<rparr>,
             invite_codes_at = 1, insights_at = 1\<rparr>],
        list_objects = [[], [''A'', ''B'']],
        dict_objects = [[], [(''rare'', 1), (''uncommon'', 4)]]\<rparr> =
   store_view \<lparr>data = [(''0xa'', 0), (''0xb'', 1)]\<rparr>
     \<lparr>info_objects =
          [\<lparr>attributes = \<lparr>info_address = ''0xa'', info_proxy = ''http://p1'', info_twitter_auth_token = ''t1'',
                info_exp = 120, info_lvl = 3, info_pending_quests = 1,
                info_next_breathe_time = JString ''Completed'', info_daily_insight = ''claimed'',
                info_insights_to_open = 2\<rparr>,
             invite_codes_at = 0, insights_at = 0\<rparr>,
           \<lparr>attributes = \<lparr>info_address = ''0xb'', info_proxy = ''http://p2'', info_twitter_auth_token = ''t2'',
                info_exp = 0, info_lvl = 0, info_pending_quests = 0,
                info_next_breathe_time = JInt 1700000000, info_daily_insight = ''available'',
                info_insights_to_open = 0\<rparr>,
             invite_codes_at = 1, insights_at = 1\<rparr>],
        list_objects = [[''A'', ''B''], []],
        dict_objects = [[(''rare'', 1), (''uncommon'', 4)], []]\<rparr>"
proof -
  let ?st = "\<lparr>data = [(''0xa'', 0), (''0xb'', 1)]\<rparr>"
  let ?h = "\<lparr>info_objects =
          [\<lparr>attributes = \<lparr>info_address = ''0xa'', info_proxy = ''http://p1'', info_twitter_auth_token = ''t1'',
                info_exp = 120, info_lvl = 3, info_pending_quests = 1,
                info_next_breathe_time = JString ''Completed'', info_daily_insight = ''claimed'',
                info_insights_to_open = 2\<rparr>,
             invite_codes_at = 0, insights_at = 0\<rparr>,
           \<lparr>attributes = \<lparr>info_address = ''0xb'', info_proxy = ''http://p2'', info_twitter_auth_token = ''t2'',
                info_exp = 0, info_lvl = 0, info_pending_quests = 0,
                info_next_breathe_time = JInt 1700000000, info_daily_insight = ''available'',
                info_insights_to_open = 0\<rparr>,
             invite_codes_at = 1, insights_at = 1\<rparr>],
        list_objects = [[''A'', ''B''], []],
        dict_objects = [[(''rare'', 1), (''uncommon'', 4)], []]\<rparr>"
  let ?empty = "(\<lparr>info_objects = [], list_objects = [], dict_objects = []\<rparr> :: account_scalars heap)"
  let ?new = "\<lparr>data = [(''0xb'', 0), (''0xa'', 1)]\<rparr>"
  let ?hn = "\<lparr>info_objects =
          [\<lparr>attributes = \<lparr>info_address = ''0xb'', info_proxy = ''http://p2'', info_twitter_auth_token = ''t2'',
                info_exp = 0, info_lvl = 0, info_pending_quests = 0,
                info_next_breathe_time = JInt 1700000000, info_daily_insight = ''available'',
                info_insights_to_open = 0\<rparr>,
             invite_codes_at = 0, insights_at = 0\<rparr>,
           \<lparr>attributes = \<lparr>info_address = ''0xa'', info_proxy = ''http://p1'', info_twitter_auth_token = ''t1'',
                info_exp = 120, info_lvl = 3, info_pending_quests = 1,
                info_next_breathe_time = JString ''Completed'', info_daily_insight = ''claimed'',
                info_insights_to_open = 2\<rparr>,
             invite_codes_at = 1, insights_at = 1\<rparr>],
        list_objects = [[], [''A'', ''B'']],
        dict_objects = [[], [(''rare'', 1), (''uncommon'', 4)]]\<rparr>"
  let ?saved = "Json_text (JObject
       [(''0xa'',
         JObject
          [(''address'', JString ''0xa''), (''proxy'', JString ''http://p1''),
           (''twitter_auth_token'', JString ''t1''),
           (''invite_codes'', JArray [JString ''A'', JString ''B'']),
           (''exp'', JInt 120), (''lvl'', JInt 3), (''pending_quests'', JInt 1),
           (''next_breathe_time'', JString ''Completed''),
           (''insights'', JObject [(''rare'', JInt 1), (''uncommon'', JInt 4)]),
           (''daily_insight'', JString ''claimed''), (''insights_to_open'', JInt 2)]),
        (''0xb'',
         JObject
          [(''address'', JString ''0xb''), (''proxy'', JString ''http://p2''),
           (''twitter_auth_token'', JString ''t2''),
           (''invite_codes'', JArray []),
           (''exp'', JInt 0), (''lvl'', JInt 0), (''pending_quests'', JInt 0),
           (''next_breathe_time'', JInt 1700000000),
           (''insights'', JObject []),
           (''daily_insight'', JString ''available''), (''insights_to_open'', JInt 0)])])"
  let ?swapped = "Json_text (JObject
       [(''0xb'',
         JObject
          [(''address'', JString ''0xb''), (''proxy'', JString ''http://p2''),
           (''twitter_auth_token'', JString ''t2''),
           (''invite_codes'', JArray []),
           (''exp'', JInt 0), (''lvl'', JInt 0), (''pending_quests'', JInt 0),
           (''next_breathe_time'', JInt 1700000000),
           (''insights'', JObject []),
           (''daily_insight'', JString ''available''), (''insights_to_open'', JInt 0)]),
        (''0xa'',
         JObject
          [(''address'', JString ''0xa''), (''proxy'', JString ''http://p1''),
           (''twitter_auth_token'', JString ''t1''),
           (''invite_codes'', JArray [JString ''A'', JString ''B'']),
           (''exp'', JInt 120), (''lvl'', JInt 3), (''pending_quests'', JInt 1),
           (''next_breathe_time'', JString ''Completed''),
           (''insights'', JObject [(''rare'', JInt 1), (''uncommon'', JInt 4)]),
           (''daily_insight'', JString ''claimed''), (''insights_to_open'', JInt 2)])])"
  have wf: "store_wf ?st ?h"
    by (simp add: store_wf_def valid_info_def)
  have a: "info_wf (info_value ?h 0)" and b: "info_wf (info_value ?h 1)"
    by (simp_all add: info_wf_def info_value_def)
  have dicts: "\<forall>r \<in> snd ` set (data ?st). info_wf (info_value ?h r)"
    using a b by simp
  have written: "save ?st ?h = ?saved"
    by (simp add: save_def to_dict_def info_value_def)
  have perm: "mset [(''0xb'', 1), (''0xa'', 0::nat)] = mset (data ?st)"
    by simp
  have members: "Json_text (JObject (map (\<lambda>(a, i). (a, to_dict (info_value ?h i)))
      [(''0xb'', 1), (''0xa'', 0)])) = ?swapped"
    by (simp add: to_dict_def info_value_def)
  have run: "init ''storage/data.json'' ?saved new_storage ?empty = Inr (?st, ?h)"
    by (simp add: init_def json_load_object_def from_members_def member_def and_then_def
        alloc_info_def new_storage_def)
  have run': "init ''storage/data.json'' ?swapped new_storage ?empty = Inr (?new, ?hn)"
    by (simp add: init_def json_load_object_def from_members_def member_def and_then_def
        alloc_info_def new_storage_def)
  note inst = save_then_init_restores [where st = ?st and h = ?h and hb = ?empty
      and filename = "''storage/data.json''", OF wf dicts]
  from inst [THEN conjunct2, rule_format, OF perm]
  obtain st' h' where
    "init ''storage/data.json'' (Json_text (JObject (map (\<lambda>(a, i). (a, to_dict (info_value ?h i)))
        [(''0xb'', 1), (''0xa'', 0)]))) new_storage ?empty = Inr (st', h')"
    and same: "store_view st' h' = store_view ?st ?h"
    by blast
  with members run' have "st' = ?new" and "h' = ?hn"
    by simp_all
  with same have kept: "store_view ?new ?hn = store_view ?st ?h"
    by simp
  from written run have run0: "init ''storage/data.json'' (save ?st ?h) new_storage ?empty = Inr (?st, ?h)"
    by (simp only:)
  show ?thesis
    by (intro conjI; (rule wf | rule a | rule b | rule written | rule run0 | rule run' | rule kept))
qed

end
